theory Spec2Isabelle
  imports Complex_Main "HOL-Library.Multiset" "HOL-Library.Log_Nat"
begin

section \<open>The loan ledger engine of \<^verbatim>\<open>LoanDetailScreen\<close> (src/src/App.jsx)\<close>

text \<open>
  The development embeds the last and most complete \<^verbatim>\<open>LoanDetailScreen\<close> component
  (App.jsx, lines 1266-1850): the ledger fold (\<^verbatim>\<open>transactionsForDisplay\<close>), the
  percentage paid off, the amortization projection, the interest recalculation
  (\<^verbatim>\<open>runInterestCalculation\<close>) and the settings handler that calls it.

  Modelling conventions.
  \<^item> In the ledger fold, the percentage paid off and the interest recalculation a
    JavaScript number is an exact rational (\<^typ>\<open>rat\<close>), or \<open>NaN\<close> where the source can
    meet it (a missing field, \<^verbatim>\<open>parseFloat\<close> of an empty string); rounding is not
    modelled there. The amount of a stored transaction is a number: the form rejects
    everything else before the write.
  \<^item> In the amortization projection a number is the rational value of an IEEE 754
    binary64 double: \<^verbatim>\<open>parseFloat\<close> and every arithmetic operation round their exact
    result to the nearest double, ties to even (\<open>toDouble\<close>), subnormal numbers
    included. There is no \<^verbatim>\<open>Infinity\<close>: \<open>toDouble\<close> rounds with an exponent that is
    not bounded above, so it is the rounding of the program as long as the result does
    not exceed the largest finite double (\<open>maxDouble\<close>). The general statement about
    the projection is made for finite inputs that pass the two checks; the loop then
    computes no value larger than its inputs (\<open>amortizationLoop_bounded\<close>), and
    nothing overflows.
  \<^item> A JavaScript \<^verbatim>\<open>Date\<close> is the record of its local civil fields
    (\<^verbatim>\<open>getFullYear\<close>, \<^verbatim>\<open>getMonth\<close>, \<^verbatim>\<open>getDate\<close>, milliseconds since local midnight),
    in one time zone without daylight-saving jumps, for years from 100 on (below,
    the \<^verbatim>\<open>Date\<close> constructor remaps two-digit years). A well-formed date has
    \<open>getMonth < 12\<close>, \<open>1 \<le> getDate \<le> daysInMonth\<close> and \<open>msOfDay < 86400000\<close>.
  \<^item> The source observes \<^verbatim>\<open>getTime()\<close> only through the sign of a difference or
    through \<^verbatim>\<open><\<close>; \<open>getTime\<close> below is a key that orders well-formed dates as the
    epoch milliseconds do (lexicographically by year, month, day, time of day).
  \<^item> \<^verbatim>\<open>Array.prototype.sort\<close> with a comparator is stable; it is the stable insertion
    sort \<^const>\<open>sort_key\<close>.
\<close>

subsection \<open>Data model\<close>

record jsDate =
  getFullYear :: int
  getMonth :: nat
  getDate :: nat
  msOfDay :: nat

definition getTime :: "jsDate \<Rightarrow> int" where
  "getTime d =
     ((getFullYear d * 12 + int (getMonth d)) * 32 + int (getDate d)) * 86400000
     + int (msOfDay d)"

text \<open>A number read from a settings field or produced by \<^verbatim>\<open>parseFloat\<close>.\<close>

datatype jsNumber = NaN | Num rat

text \<open>The \<^verbatim>\<open>type\<close> field of a stored transaction document: the form offers
  \<^verbatim>\<open>payment\<close> and \<^verbatim>\<open>loanIncrease\<close>, the recalculation writes \<^verbatim>\<open>interest\<close>.\<close>

datatype txType = payment | loanIncrease | interest

text \<open>The \<^verbatim>\<open>type\<close> field of a ledger row: the synthetic row has \<^verbatim>\<open>'initial'\<close>.\<close>

datatype entryType = initial | stored txType

text \<open>A document of the \<^verbatim>\<open>transactions\<close> collection, with its id, after
  \<^verbatim>\<open>date.toDate()\<close>. The audit field \<^verbatim>\<open>createdAt\<close> is never read and is left out.\<close>

record transaction =
  txId :: string
  txDate :: jsDate
  txKind :: txType
  txAmount :: rat
  txDescription :: string
  txAuthorId :: string

text \<open>\<^verbatim>\<open>loanData.settings\<close>: every field but the title may be missing (\<open>None\<close>); a new
  loan has the title only.\<close>

record settings =
  appTitle :: string
  initialLoanAmount :: "jsNumber option"
  initialLoanDate :: "jsDate option"
  interestRate :: "jsNumber option"

text \<open>A row of \<^verbatim>\<open>allTransactions\<close>, and the same row with its
  \<^verbatim>\<open>runningBalance\<close> (\<^verbatim>\<open>{ ...t, runningBalance }\<close>).\<close>

record entry =
  entryId :: string
  date :: jsDate
  description :: string
  amount :: rat
  etype :: entryType
  authorId :: string

record ledgerEntry = entry +
  runningBalance :: rat

datatype sortDir = asc | desc

record lastPaymentInfo =
  lpDate :: jsDate
  lpAmount :: rat

record ledger =
  transactionsForDisplay :: "ledgerEntry list"
  currentRunningBalance :: rat
  lastPayment :: "lastPaymentInfo option"

subsection \<open>The ledger fold (App.jsx 1513-1549)\<close>

definition initialRow :: "jsDate \<Rightarrow> rat \<Rightarrow> entry" where
  "initialRow d a =
     \<lparr>entryId = ''initial'', date = d, description = ''Initial Loan Amount'',
      amount = a, etype = initial, authorId = ''''\<rparr>"

definition toRow :: "transaction \<Rightarrow> entry" where
  "toRow t =
     \<lparr>entryId = txId t, date = txDate t, description = txDescription t,
      amount = txAmount t, etype = stored (txKind t), authorId = txAuthorId t\<rparr>"

text \<open>\<^verbatim>\<open>[initialRow, ...transactions.map(...)].sort((a, b) => a.date.getTime() - b.date.getTime())\<close>\<close>

definition allTransactions :: "jsDate \<Rightarrow> rat \<Rightarrow> transaction list \<Rightarrow> entry list" where
  "allTransactions d a txs = sort_key (\<lambda>e. getTime (date e)) (initialRow d a # map toRow txs)"

text \<open>One step of the \<^verbatim>\<open>map\<close> callback on the mutable \<^verbatim>\<open>runningBalance\<close>.\<close>

definition applyRow :: "rat \<Rightarrow> entry \<Rightarrow> rat" where
  "applyRow rb t = (if etype t = stored payment then rb - amount t else rb + amount t)"

definition withBalance :: "entry \<Rightarrow> rat \<Rightarrow> ledgerEntry" where
  "withBalance t rb =
     \<lparr>entryId = entryId t, date = date t, description = description t,
      amount = amount t, etype = etype t, authorId = authorId t, runningBalance = rb\<rparr>"

fun mapRunningBalance :: "rat \<Rightarrow> entry list \<Rightarrow> ledgerEntry list" where
  "mapRunningBalance rb [] = []"
| "mapRunningBalance rb (t # ts) =
     withBalance t (applyRow rb t) # mapRunningBalance (applyRow rb t) ts"

fun lastPaymentOf :: "lastPaymentInfo option \<Rightarrow> entry list \<Rightarrow> lastPaymentInfo option" where
  "lastPaymentOf lp [] = lp"
| "lastPaymentOf lp (t # ts) =
     lastPaymentOf (if etype t = stored payment
                    then Some \<lparr>lpDate = date t, lpAmount = amount t\<rparr> else lp) ts"

text \<open>\<^verbatim>\<open>calculatedTransactions\<close>: the rows in fold order, before the display sort.
  The guard \<^verbatim>\<open>!initialLoanAmount\<close> is true for a missing amount, for \<^verbatim>\<open>NaN\<close> and for 0.\<close>

definition calculatedTransactions :: "settings \<Rightarrow> transaction list \<Rightarrow> ledgerEntry list" where
  "calculatedTransactions s txs =
     (case (initialLoanAmount s, initialLoanDate s) of
        (Some (Num a), Some d) \<Rightarrow>
          if a = 0 then [] else mapRunningBalance 0 (allTransactions d a txs)
      | _ \<Rightarrow> [])"

definition sortedForDisplay :: "sortDir \<Rightarrow> ledgerEntry list \<Rightarrow> ledgerEntry list" where
  "sortedForDisplay dir rows =
     (case dir of
        desc \<Rightarrow> sort_key (\<lambda>e. - getTime (date e)) rows
      | asc \<Rightarrow> sort_key (\<lambda>e. getTime (date e)) rows)"

text \<open>The \<^verbatim>\<open>useMemo\<close> that yields \<^verbatim>\<open>transactionsForDisplay\<close>,
  \<^verbatim>\<open>currentRunningBalance\<close> and \<^verbatim>\<open>lastPayment\<close>.\<close>

definition ledgerUseMemo :: "settings \<Rightarrow> transaction list \<Rightarrow> sortDir \<Rightarrow> ledger" where
  "ledgerUseMemo s txs dir =
     (case (initialLoanAmount s, initialLoanDate s) of
        (Some (Num a), Some d) \<Rightarrow>
          if a = 0
          then \<lparr>transactionsForDisplay = [], currentRunningBalance = 0, lastPayment = None\<rparr>
          else \<lparr>transactionsForDisplay = sortedForDisplay dir (calculatedTransactions s txs),
                currentRunningBalance = foldl applyRow 0 (allTransactions d a txs),
                lastPayment = lastPaymentOf None (allTransactions d a txs)\<rparr>
      | _ \<Rightarrow> \<lparr>transactionsForDisplay = [], currentRunningBalance = 0, lastPayment = None\<rparr>)"

subsection \<open>Percentage paid off (App.jsx 1551-1558)\<close>

definition totalPrincipalPaid :: "transaction list \<Rightarrow> rat" where
  "totalPrincipalPaid txs =
     foldl (\<lambda>acc t. acc + txAmount t) 0 (filter (\<lambda>t. txKind t = payment) txs)"

definition percentagePaidOff :: "settings \<Rightarrow> transaction list \<Rightarrow> rat" where
  "percentagePaidOff s txs =
     (case initialLoanAmount s of
        Some (Num a) \<Rightarrow>
          if a = 0 \<or> a \<le> 0 then 0
          else max 0 (min 100 ((totalPrincipalPaid txs / a) * 100))
      | _ \<Rightarrow> 0)"


subsection \<open>IEEE 754 doubles\<close>

text \<open>Rounding to the nearest integer, ties to the even one.\<close>

definition roundHalfEven :: "rat \<Rightarrow> int" where
  "roundHalfEven m =
     (let n = \<lfloor>m\<rfloor>; r = m - of_int n
      in if r < 1 / 2 then n else if 1 / 2 < r then n + 1 else if even n then n else n + 1)"

text \<open>The double nearest to \<open>x \<ge> 0\<close>. Counted in units of \<open>2\<^sup>-\<^sup>1\<^sup>0\<^sup>7\<^sup>4\<close>, the smallest
  positive double, the doubles are the integers with at most 53 binary digits times a
  power of two. \<open>s\<close> is \<open>x\<close> in these units and \<open>bitlen \<lfloor>s\<rfloor>\<close> the number of binary
  digits of its integer part, so the doubles around \<open>s\<close> are the multiples of \<open>2 ^ q\<close>:
  \<open>q\<close> is 0 up to \<open>2\<^sup>5\<^sup>3\<close> units (the subnormal numbers and the first binade of
  normal ones) and grows by one with every further binary digit.\<close>

definition nearestDouble :: "rat \<Rightarrow> rat" where
  "nearestDouble x =
     (let s = x * 2 ^ 1074; q = nat (bitlen \<lfloor>s\<rfloor> - 53)
      in of_int (roundHalfEven (s / 2 ^ q)) * 2 ^ q / 2 ^ 1074)"

text \<open>Rounding is symmetric about 0 (the sign of a zero is never observed by the
  projection).\<close>

definition toDouble :: "rat \<Rightarrow> rat" where
  "toDouble x = (if x < 0 then - nearestDouble (- x) else nearestDouble x)"

text \<open>The largest finite double, and the finite doubles.\<close>

definition maxDouble :: rat where
  "maxDouble = (2 ^ 53 - 1) * 2 ^ 971"

definition finiteDouble :: "rat \<Rightarrow> bool" where
  "finiteDouble x \<longleftrightarrow> toDouble x = x \<and> \<bar>x\<bar> \<le> maxDouble"

subsection \<open>Amortization projection (App.jsx 1581-1614)\<close>

datatype noteType = success | error

record notification =
  ntype :: noteType
  message :: string

record amortizationRow =
  rowMonth :: nat
  rowPayment :: rat
  rowPrincipal :: rat
  rowInterest :: rat
  endingBalance :: rat

text \<open>The two pieces of component state that the projection handler writes.\<close>

record projectionState =
  notificationState :: "notification option"
  amortizationSchedule :: "amortizationRow list"

text \<open>The notification of the first validation (the spec's \<^verbatim>\<open>InvalidPayment\<close>) and of
  the second (\<^verbatim>\<open>PaymentTooSmall\<close>).\<close>

definition InvalidPayment :: notification where
  "InvalidPayment =
     \<lparr>ntype = error, message = ''Please enter a valid monthly payment amount.''\<rparr>"

definition PaymentTooSmall :: notification where
  "PaymentTooSmall =
     \<lparr>ntype = error,
      message = ''Monthly payment must be greater than the interest to pay off the loan.''\<rparr>"

text \<open>\<^verbatim>\<open>while (balance > 0 && month < 600) { ... month++ }\<close>; the product, the difference
  and \<^verbatim>\<open>balance -= principalForMonth\<close> are each rounded.\<close>

function amortizationLoop ::
  "rat \<Rightarrow> rat \<Rightarrow> rat \<Rightarrow> nat \<Rightarrow> amortizationRow list \<Rightarrow> amortizationRow list" where
  "amortizationLoop monthlyPayment monthlyRate balance month schedule =
     (if balance > 0 \<and> month < 600
      then (let interestForMonth = toDouble (balance * monthlyRate);
                principalForMonth = toDouble (monthlyPayment - interestForMonth);
                balance' = toDouble (balance - principalForMonth)
            in amortizationLoop monthlyPayment monthlyRate balance' (month + 1)
                 (schedule @
                  [\<lparr>rowMonth = month, rowPayment = monthlyPayment,
                    rowPrincipal = principalForMonth, rowInterest = interestForMonth,
                    endingBalance = (if balance' > 0 then balance' else 0)\<rparr>]))
      else schedule)"
  by pat_completeness auto
termination
  by (relation "measure (\<lambda>(p, r, b, m, s). 600 - m)") auto

declare amortizationLoop.simps [simp del]

text \<open>\<^verbatim>\<open>projectionPayment\<close> is the text of a number input: \<open>None\<close> when it is empty or
  not a number (\<^verbatim>\<open>parseFloat\<close> gives \<^verbatim>\<open>NaN\<close>), else the decimal number that is typed,
  which \<^verbatim>\<open>parseFloat\<close> rounds to a double. \<open>rate\<close> is \<^verbatim>\<open>loanData.settings.interestRate\<close>
  and \<open>balance\<close> is \<^verbatim>\<open>currentRunningBalance\<close>, both doubles. The section is rendered only
  when \<^verbatim>\<open>interestRate > 0\<close>, so the rate is a number here.\<close>

definition handleCalculateProjections ::
  "rat option \<Rightarrow> rat \<Rightarrow> rat \<Rightarrow> projectionState \<Rightarrow> projectionState" where
  "handleCalculateProjections projectionPayment rate balance st =
     (case projectionPayment of
        None \<Rightarrow> st\<lparr>notificationState := Some InvalidPayment\<rparr>
      | Some typed \<Rightarrow>
          if toDouble typed \<le> 0 then st\<lparr>notificationState := Some InvalidPayment\<rparr>
          else (let monthlyPayment = toDouble typed;
                    annualRate = toDouble (rate / 100);
                    monthlyRate = toDouble (annualRate / 12)
                in if monthlyPayment \<le> toDouble (balance * monthlyRate)
                   then st\<lparr>notificationState := Some PaymentTooSmall,
                           amortizationSchedule := []\<rparr>
                   else st\<lparr>amortizationSchedule :=
                             amortizationLoop monthlyPayment monthlyRate balance 1 []\<rparr>))"

subsection \<open>Calendar arithmetic of \<^verbatim>\<open>Date\<close>\<close>

definition isLeapYear :: "int \<Rightarrow> bool" where
  "isLeapYear y =
     (if y mod 400 = 0 then True else if y mod 100 = 0 then False else y mod 4 = 0)"

text \<open>Months are numbered from 0, as \<^verbatim>\<open>getMonth()\<close> does.\<close>

definition daysInMonth :: "int \<Rightarrow> nat \<Rightarrow> nat" where
  "daysInMonth y m =
     (if m = 1 then (if isLeapYear y then 29 else 28)
      else if m = 3 \<or> m = 5 \<or> m = 8 \<or> m = 10 then 30 else 31)"

text \<open>\<^verbatim>\<open>new Date(year, month, 1)\<close>\<close>

definition startOfMonth :: "int \<Rightarrow> nat \<Rightarrow> jsDate" where
  "startOfMonth y m = \<lparr>getFullYear = y, getMonth = m, getDate = 1, msOfDay = 0\<rparr>"

text \<open>\<^verbatim>\<open>new Date(year, month + 1, 0)\<close>: day 0 of the next month is the last day of this
  one, at local midnight.\<close>

definition endOfMonth :: "int \<Rightarrow> nat \<Rightarrow> jsDate" where
  "endOfMonth y m = \<lparr>getFullYear = y, getMonth = m, getDate = daysInMonth y m, msOfDay = 0\<rparr>"

text \<open>\<^verbatim>\<open>dateIterator.setMonth(dateIterator.getMonth() + 1)\<close>: the month after December is
  January of the next year, and a day of the month that the new month does not have
  runs over into the month after it (31 January becomes 2 or 3 March).\<close>

definition setMonthNext :: "jsDate \<Rightarrow> jsDate" where
  "setMonthNext d =
     (let i = getFullYear d * 12 + int (getMonth d) + 1;
          y1 = i div 12;
          m1 = nat (i mod 12);
          dim = daysInMonth y1 m1
      in if getDate d \<le> dim
         then \<lparr>getFullYear = y1, getMonth = m1, getDate = getDate d, msOfDay = msOfDay d\<rparr>
         else \<lparr>getFullYear = (i + 1) div 12, getMonth = nat ((i + 1) mod 12),
               getDate = getDate d - dim, msOfDay = msOfDay d\<rparr>)"

text \<open>\<^verbatim>\<open>toLocaleString('default', { month: 'long' })\<close> in an English locale, and the
  decimal digits of the year.\<close>

definition monthName :: "nat \<Rightarrow> string" where
  "monthName m =
     (if m < 12
      then [''January'', ''February'', ''March'', ''April'', ''May'', ''June'', ''July'',
            ''August'', ''September'', ''October'', ''November'', ''December''] ! m
      else [])"

fun showNat :: "nat \<Rightarrow> string" where
  "showNat n =
     (if n < 10 then [''0123456789'' ! n]
      else showNat (n div 10) @ [''0123456789'' ! (n mod 10)])"

declare showNat.simps [simp del]

subsection \<open>Interest recalculation (App.jsx 1310-1385)\<close>

text \<open>A row of \<^verbatim>\<open>dynamicTransactions\<close>; only these three fields are read. The amount of
  the initial row is the settings field as it is, so it may be \<^verbatim>\<open>NaN\<close> after
  \<^verbatim>\<open>parseFloat\<close>.\<close>

record dynRow =
  rowDate :: jsDate
  rowAmount :: jsNumber
  rowType :: entryType

text \<open>The document handed to \<^verbatim>\<open>batch.set\<close>, without \<^verbatim>\<open>createdAt\<close>; its id is drawn by
  the store.\<close>

record newInterestTx =
  docAmount :: rat
  docDate :: jsDate
  docDescription :: string
  docType :: txType
  docAuthorId :: string

record batch =
  batchDeletes :: "string list"
  batchSets :: "newInterestTx list"

datatype outcome = Skipped | ThrewTypeError | Committed batch

definition toDynRow :: "transaction \<Rightarrow> dynRow" where
  "toDynRow t = \<lparr>rowDate = txDate t, rowAmount = Num (txAmount t), rowType = stored (txKind t)\<rparr>"

text \<open>The \<^verbatim>\<open>reduce\<close> callback: \<^verbatim>\<open>NaN\<close> is absorbing.\<close>

definition reduceStep :: "jsNumber \<Rightarrow> dynRow \<Rightarrow> jsNumber" where
  "reduceStep acc t =
     (case (acc, rowAmount t) of
        (Num a, Num x) \<Rightarrow> if rowType t = stored payment then Num (a - x) else Num (a + x)
      | _ \<Rightarrow> NaN)"

definition balanceBefore :: "dynRow list \<Rightarrow> jsDate \<Rightarrow> jsNumber" where
  "balanceBefore dynamicTransactions start =
     foldl reduceStep (Num 0)
       (filter (\<lambda>t. getTime (rowDate t) < getTime start) dynamicTransactions)"

definition interestDoc :: "rat \<Rightarrow> jsDate \<Rightarrow> newInterestTx" where
  "interestDoc interestAmount eom =
     \<lparr>docAmount = interestAmount, docDate = eom,
      docDescription =
        ''Monthly Interest - '' @ monthName (getMonth eom) @ '' ''
        @ showNat (nat (getFullYear eom)),
      docType = interest, docAuthorId = ''system''\<rparr>"

text \<open>The body of the \<^verbatim>\<open>while\<close> loop for the month of \<open>dateIterator\<close>: the new
  \<^verbatim>\<open>dynamicTransactions\<close> and the documents set in the batch so far.\<close>

definition monthBody ::
  "jsNumber \<Rightarrow> jsDate \<Rightarrow> dynRow list \<Rightarrow> newInterestTx list
     \<Rightarrow> dynRow list \<times> newInterestTx list" where
  "monthBody rate dateIterator dynamicTransactions docs =
     (let yr = getFullYear dateIterator;
          mo = getMonth dateIterator;
          som = startOfMonth yr mo;
          eom = endOfMonth yr mo
      in case (balanceBefore dynamicTransactions som, rate) of
           (Num balance, Num r) \<Rightarrow>
             if balance > 0 \<and> r > 0
             then (let monthlyRate = (r / 100) / 12;
                       interestAmount = balance * monthlyRate
                   in if interestAmount > 5 / 1000
                      then (sort_key (\<lambda>t. getTime (rowDate t))
                              (dynamicTransactions @
                               [\<lparr>rowDate = eom, rowAmount = Num interestAmount,
                                 rowType = stored interest\<rparr>]),
                            docs @ [interestDoc interestAmount eom])
                      else (dynamicTransactions, docs))
             else (dynamicTransactions, docs)
         | _ \<Rightarrow> (dynamicTransactions, docs))"

function interestLoop ::
  "jsNumber \<Rightarrow> jsDate \<Rightarrow> jsDate \<Rightarrow> dynRow list \<Rightarrow> newInterestTx list \<Rightarrow> newInterestTx list"
  where
  "interestLoop rate today dateIterator dynamicTransactions docs =
     (if getTime (endOfMonth (getFullYear dateIterator) (getMonth dateIterator)) < getTime today
      then interestLoop rate today (setMonthNext dateIterator)
             (fst (monthBody rate dateIterator dynamicTransactions docs))
             (snd (monthBody rate dateIterator dynamicTransactions docs))
      else docs)"
  by pat_completeness auto
termination
proof (relation "measure (\<lambda>(rate, today, it, dyn, docs).
          nat (getTime today - (getFullYear it * 12 + int (getMonth it)) * 2764800000))")
  show "wf (measure (\<lambda>(rate, today, it, dyn, docs).
          nat (getTime today - (getFullYear it * 12 + int (getMonth it)) * 2764800000)))"
    by simp
next
  fix rate :: jsNumber and today dateIterator :: jsDate
    and dynamicTransactions :: "dynRow list" and docs :: "newInterestTx list"
  assume g: "getTime (endOfMonth (getFullYear dateIterator) (getMonth dateIterator))
               < getTime today"
  let ?i = "getFullYear dateIterator * 12 + int (getMonth dateIterator)"
  let ?n = "setMonthNext dateIterator"
  have "?i * 2764800000 \<le> getTime (endOfMonth (getFullYear dateIterator) (getMonth dateIterator))"
    by (simp add: getTime_def endOfMonth_def)
  with g have pos: "?i * 2764800000 < getTime today" by linarith
  have "(?i + 1) div 12 * 12 + int (nat ((?i + 1) mod 12)) = ?i + 1" by simp
  moreover have "(?i + 1 + 1) div 12 * 12 + int (nat ((?i + 1 + 1) mod 12)) = ?i + 2" by simp
  ultimately have "?i + 1 \<le> getFullYear ?n * 12 + int (getMonth ?n)"
    by (simp add: setMonthNext_def Let_def)
  then have "(?i + 1) * 2764800000 \<le> (getFullYear ?n * 12 + int (getMonth ?n)) * 2764800000"
    by simp
  with pos show "((rate, today, ?n,
          fst (monthBody rate dateIterator dynamicTransactions docs),
          snd (monthBody rate dateIterator dynamicTransactions docs)),
         (rate, today, dateIterator, dynamicTransactions, docs))
        \<in> measure (\<lambda>(rate, today, it, dyn, docs).
            nat (getTime today - (getFullYear it * 12 + int (getMonth it)) * 2764800000))"
    by simp
qed

declare interestLoop.simps [simp del]

text \<open>\<open>currentLoanData\<close> and \<open>currentTransactions\<close> are \<open>None\<close> when the caller passes
  no argument (\<^verbatim>\<open>undefined\<close>); \<open>collection\<close> is the content of the \<^verbatim>\<open>transactions\<close>
  collection that the \<^verbatim>\<open>where('type', '==', 'interest')\<close> query reads; \<open>today\<close> is
  \<^verbatim>\<open>new Date()\<close>. The result is the batch that \<^verbatim>\<open>batch.commit()\<close> sends.\<close>

definition runInterestCalculation ::
  "bool \<Rightarrow> settings option \<Rightarrow> transaction list option \<Rightarrow> transaction list \<Rightarrow> jsDate
     \<Rightarrow> outcome" where
  "runInterestCalculation isCalculatingInterest currentLoanData currentTransactions
      collection today =
     (if isCalculatingInterest then Skipped
      else case currentLoanData of
        None \<Rightarrow> Skipped
      | Some s \<Rightarrow>
         (case (initialLoanDate s, interestRate s) of
            (Some d0, Some rate) \<Rightarrow>
              (case currentTransactions of
                 None \<Rightarrow> ThrewTypeError
               | Some txs \<Rightarrow>
                   (let nonInterestTransactions =
                          map toDynRow (filter (\<lambda>t. txKind t \<noteq> interest) txs);
                        dynamicTransactions =
                          sort_key (\<lambda>t. getTime (rowDate t))
                            (\<lparr>rowDate = d0,
                              rowAmount = (case initialLoanAmount s of
                                             Some a \<Rightarrow> a | None \<Rightarrow> NaN),
                              rowType = initial\<rparr> # nonInterestTransactions)
                    in Committed
                         \<lparr>batchDeletes =
                            map txId (filter (\<lambda>t. txKind t = interest) collection),
                          batchSets = interestLoop rate today d0 dynamicTransactions []\<rparr>))
          | _ \<Rightarrow> Skipped))"

subsection \<open>Saving the settings (App.jsx 1422-1452)\<close>

text \<open>The form fields after \<^verbatim>\<open>parseFloat\<close>; the date is \<open>None\<close> for an empty input.\<close>

record formSettings =
  formAppTitle :: string
  formInitialLoanAmount :: jsNumber
  formInterestRate :: jsNumber
  formInitialLoanDate :: "jsDate option"

text \<open>The loan document's settings, the \<^verbatim>\<open>transactions\<close> collection and the
  notification shown.\<close>

record screenState =
  settingsDoc :: "settings option"
  transactionDocs :: "transaction list"
  shown :: "notification option"

text \<open>\<^verbatim>\<open>batch.commit()\<close> on the collection: the deletes, then the sets under ids drawn by
  the store (\<open>newId\<close>).\<close>

definition applyBatch :: "(nat \<Rightarrow> string) \<Rightarrow> batch \<Rightarrow> transaction list \<Rightarrow> transaction list"
  where
  "applyBatch newId b docs =
     filter (\<lambda>t. txId t \<notin> set (batchDeletes b)) docs
     @ map (\<lambda>(i, d). \<lparr>txId = newId i, txDate = docDate d, txKind = docType d,
                       txAmount = docAmount d, txDescription = docDescription d,
                       txAuthorId = docAuthorId d\<rparr>)
         (enumerate 0 (batchSets b))"

text \<open>\<open>setDocOk\<close> tells whether the settings write succeeds. The validation rejects an
  amount that is \<^verbatim>\<open>NaN\<close> and an empty date; its middle test,
  \<^verbatim>\<open>newSettings.interestRate == null\<close>, is never true of a \<^verbatim>\<open>parseFloat\<close> result, so a
  rate of \<^verbatim>\<open>NaN\<close> is saved. After the write the handler calls
  \<^verbatim>\<open>runInterestCalculation()\<close> with no argument.\<close>

definition handleSaveSettings ::
  "string \<Rightarrow> string \<Rightarrow> formSettings \<Rightarrow> bool \<Rightarrow> bool \<Rightarrow> (nat \<Rightarrow> string) \<Rightarrow> jsDate
     \<Rightarrow> screenState \<Rightarrow> screenState" where
  "handleSaveSettings userId loanId form setDocOk isCalculatingInterest newId today st =
     (if userId = [] \<or> loanId = [] then st
      else case (formInitialLoanAmount form, formInitialLoanDate form) of
        (Num a, Some d) \<Rightarrow>
          if setDocOk
          then (let st1 = st\<lparr>settingsDoc :=
                               Some \<lparr>appTitle = formAppTitle form,
                                     initialLoanAmount = Some (Num a),
                                     initialLoanDate = Some d,
                                     interestRate = Some (formInterestRate form)\<rparr>,
                             shown := Some \<lparr>ntype = success, message = ''Settings saved!''\<rparr>\<rparr>
                in case runInterestCalculation isCalculatingInterest None None
                          (transactionDocs st1) today of
                     Skipped \<Rightarrow> st1
                   | ThrewTypeError \<Rightarrow>
                       st1\<lparr>shown := Some \<lparr>ntype = error,
                                            message = ''Failed to save settings.''\<rparr>\<rparr>
                   | Committed b \<Rightarrow>
                       st1\<lparr>transactionDocs := applyBatch newId b (transactionDocs st1),
                           shown := (if batchSets b = [] then shown st1
                                     else Some \<lparr>ntype = success,
                                                message = ''Interest recalculated successfully.''\<rparr>)\<rparr>)
          else st\<lparr>shown := Some \<lparr>ntype = error, message = ''Failed to save settings.''\<rparr>\<rparr>
      | _ \<Rightarrow>
          st\<lparr>shown := Some \<lparr>ntype = error,
                message = ''Please enter valid numbers and a date for all settings.''\<rparr>\<rparr>)"

subsection \<open>Notions used to state the properties\<close>

text \<open>The running balance at a point in time: the balance of the last row of the fold
  dated on or before it, and 0 when there is none.\<close>

definition balanceAt :: "ledgerEntry list \<Rightarrow> jsDate \<Rightarrow> rat" where
  "balanceAt rows d =
     (case filter (\<lambda>e. getTime (date e) \<le> getTime d) rows of
        [] \<Rightarrow> 0
      | r # rs \<Rightarrow> runningBalance (last (r # rs)))"

text \<open>The effect of a row on the balance.\<close>

definition signedAmount :: "entry \<Rightarrow> rat" where
  "signedAmount t = (if etype t = stored payment then - amount t else amount t)"

definition isIncrease :: "txType \<Rightarrow> bool" where
  "isIncrease k = (k = loanIncrease \<or> k = interest)"

definition isPayment :: "txType \<Rightarrow> bool" where
  "isPayment k = (k = payment)"

text \<open>The sum of the amounts of one kind dated on or before a point in time.\<close>

definition amountsUpTo :: "(txType \<Rightarrow> bool) \<Rightarrow> transaction list \<Rightarrow> jsDate \<Rightarrow> rat" where
  "amountsUpTo K txs d =
     sum_list (map txAmount (filter (\<lambda>t. K (txKind t) \<and> getTime (txDate t) \<le> getTime d) txs))"

text \<open>The rows that the fold meets before the initial row, and from it on.\<close>

definition rowsBefore :: "jsDate \<Rightarrow> transaction list \<Rightarrow> entry list" where
  "rowsBefore d0 txs =
     sort_key (\<lambda>e. getTime (date e))
       (map toRow (filter (\<lambda>t. getTime (txDate t) < getTime d0) txs))"

definition rowsFrom :: "jsDate \<Rightarrow> transaction list \<Rightarrow> entry list" where
  "rowsFrom d0 txs =
     sort_key (\<lambda>e. getTime (date e))
       (map toRow (filter (\<lambda>t. getTime d0 \<le> getTime (txDate t)) txs))"

text \<open>The number of the month of a date, counted from year 0.\<close>

definition monthIndex :: "jsDate \<Rightarrow> int" where
  "monthIndex d = getFullYear d * 12 + int (getMonth d)"

text \<open>The effect of a row of \<^verbatim>\<open>dynamicTransactions\<close> on the balance, and the row pushed
  for a new interest document.\<close>

definition rowValue :: "dynRow \<Rightarrow> rat" where
  "rowValue t =
     (case rowAmount t of
        NaN \<Rightarrow> 0
      | Num x \<Rightarrow> if rowType t = stored payment then - x else x)"

definition docRow :: "newInterestTx \<Rightarrow> dynRow" where
  "docRow d = \<lparr>rowDate = docDate d, rowAmount = Num (docAmount d), rowType = stored interest\<rparr>"

text \<open>The documents that a recalculation sets; none when it does not commit.\<close>

definition setsOf :: "outcome \<Rightarrow> newInterestTx list" where
  "setsOf out = (case out of Committed b \<Rightarrow> batchSets b | _ \<Rightarrow> [])"


text \<open>The balance of the initial amount and the non-interest transactions dated strictly
  before \<open>start\<close>.\<close>

definition nonInterestBasis :: "rat \<Rightarrow> jsDate \<Rightarrow> transaction list \<Rightarrow> jsDate \<Rightarrow> rat" where
  "nonInterestBasis a d0 txs start =
     (if getTime d0 < getTime start then a else 0)
     + sum_list (map txAmount
         (filter (\<lambda>t. txKind t = loanIncrease \<and> getTime (txDate t) < getTime start) txs))
     - sum_list (map txAmount
         (filter (\<lambda>t. txKind t = payment \<and> getTime (txDate t) < getTime start) txs))"

definition monthStartOf :: "newInterestTx \<Rightarrow> jsDate" where
  "monthStartOf d = startOfMonth (getFullYear (docDate d)) (getMonth (docDate d))"

text \<open>Every accrual is the monthly rate times the non-interest basis of its month alone.\<close>

fun accruedOnBasisOnly :: "(jsDate \<Rightarrow> rat) \<Rightarrow> rat \<Rightarrow> newInterestTx list \<Rightarrow> bool" where
  "accruedOnBasisOnly basis monthlyRate [] = True"
| "accruedOnBasisOnly basis monthlyRate (d # ds) =
     (docAmount d = basis (monthStartOf d) * monthlyRate
      \<and> accruedOnBasisOnly basis monthlyRate ds)"

text \<open>Every accrual is the monthly rate times the non-interest basis of its month plus
  the accruals generated before it in the same pass (\<open>accrued\<close>).\<close>

fun accruedCompounding ::
  "(jsDate \<Rightarrow> rat) \<Rightarrow> rat \<Rightarrow> rat \<Rightarrow> newInterestTx list \<Rightarrow> bool" where
  "accruedCompounding basis monthlyRate accrued [] = True"
| "accruedCompounding basis monthlyRate accrued (d # ds) =
     (docAmount d = (basis (monthStartOf d) + accrued) * monthlyRate
      \<and> accruedCompounding basis monthlyRate (accrued + docAmount d) ds)"




text \<open>The \<^verbatim>\<open>monthlyRate\<close> that the projection handler computes from the rate, the balance
  after one turn of its loop, and the row pushed in that turn.\<close>

definition monthlyRateOf :: "rat \<Rightarrow> rat" where
  "monthlyRateOf rate = toDouble (toDouble (rate / 100) / 12)"

definition nextBalance :: "rat \<Rightarrow> rat \<Rightarrow> rat \<Rightarrow> rat" where
  "nextBalance p r b = toDouble (b - toDouble (p - toDouble (b * r)))"

definition scheduleRow :: "rat \<Rightarrow> rat \<Rightarrow> rat \<Rightarrow> nat \<Rightarrow> amortizationRow" where
  "scheduleRow p r b m =
     \<lparr>rowMonth = m, rowPayment = p, rowPrincipal = toDouble (p - toDouble (b * r)),
      rowInterest = toDouble (b * r),
      endingBalance = (if nextBalance p r b > 0 then nextBalance p r b else 0)\<rparr>"

subsection \<open>Concrete loans\<close>

definition idleProjection :: projectionState where
  "idleProjection = \<lparr>notificationState = None, amortizationSchedule = []\<rparr>"

definition localTime :: "int \<Rightarrow> nat \<Rightarrow> nat \<Rightarrow> nat \<Rightarrow> jsDate" where
  "localTime y m d ms = \<lparr>getFullYear = y, getMonth = m, getDate = d, msOfDay = ms\<rparr>"

definition mkTx :: "string \<Rightarrow> jsDate \<Rightarrow> txType \<Rightarrow> rat \<Rightarrow> transaction" where
  "mkTx i d k a =
     \<lparr>txId = i, txDate = d, txKind = k, txAmount = a, txDescription = [],
      txAuthorId = ''u1''\<rparr>"

definition mkLoan :: "rat \<Rightarrow> jsDate \<Rightarrow> rat \<Rightarrow> settings" where
  "mkLoan a d r =
     \<lparr>appTitle = ''Loan'', initialLoanAmount = Some (Num a), initialLoanDate = Some d,
      interestRate = Some (Num r)\<rparr>"

text \<open>Scenarios A and B: 1000 lent on 2024-01-01 at 0 percent.\<close>

definition loanA :: settings where
  "loanA = mkLoan 1000 (localTime 2024 0 1 0) 0"

definition txsA :: "transaction list" where
  "txsA = [mkTx ''p1'' (localTime 2024 1 1 0) payment 200]"

definition txsB :: "transaction list" where
  "txsB = [mkTx ''i1'' (localTime 2024 0 15 0) loanIncrease 100,
           mkTx ''p1'' (localTime 2024 1 1 0) payment 200]"

text \<open>A payment dated before the loan's initial date.\<close>

definition txsEarly :: "transaction list" where
  "txsEarly = [mkTx ''p0'' (localTime 2023 11 20 0) payment 200]"

text \<open>A loan whose initial amount is 0, with one increase.\<close>

definition loanZero :: settings where
  "loanZero = mkLoan 0 (localTime 2024 0 1 0) 0"

definition txsIncrease :: "transaction list" where
  "txsIncrease = [mkTx ''i1'' (localTime 2024 0 15 0) loanIncrease 100]"

text \<open>Scenario C: 1000 lent at 12 percent, no payments; lent on 15 January 2024, or on
  the first of January.\<close>

definition loanC :: settings where
  "loanC = mkLoan 1000 (localTime 2024 0 15 0) 12"

definition loanCFirst :: settings where
  "loanCFirst = mkLoan 1000 (localTime 2024 0 1 0) 12"

text \<open>The settings form filled in for \<open>loanC\<close>, an empty screen, and ids for new
  documents.\<close>

definition formC :: formSettings where
  "formC = \<lparr>formAppTitle = ''Loan'', formInitialLoanAmount = Num 1000,
             formInterestRate = Num 12, formInitialLoanDate = Some (localTime 2024 0 15 0)\<rparr>"

definition newScreen :: screenState where
  "newScreen = \<lparr>settingsDoc = None, transactionDocs = [], shown = None\<rparr>"

definition autoId :: "nat \<Rightarrow> string" where
  "autoId n = ''auto'' @ showNat n"

text \<open>The accrual of February 2024 on 1000 at 12 percent, and the one of March 2024 on
  1010.\<close>

definition accrualFeb :: newInterestTx where
  "accrualFeb =
     \<lparr>docAmount = 10, docDate = localTime 2024 1 29 0,
      docDescription = ''Monthly Interest - February 2024'', docType = interest,
      docAuthorId = ''system''\<rparr>"


definition accrualMar :: newInterestTx where
  "accrualMar =
     \<lparr>docAmount = 101 / 10, docDate = localTime 2024 2 31 0,
      docDescription = ''Monthly Interest - March 2024'', docType = interest,
      docAuthorId = ''system''\<rparr>"

section \<open>Properties\<close>

subsection \<open>Facts about the ledger fold\<close>

lemma foldl_applyRow: "foldl applyRow rb ts = rb + sum_list (map signedAmount ts)"
  by (induction ts arbitrary: rb) (simp_all add: applyRow_def signedAmount_def)

lemma mapRunningBalance_append:
  "mapRunningBalance rb (xs @ ys) =
     mapRunningBalance rb xs @ mapRunningBalance (foldl applyRow rb xs) ys"
  by (induction xs arbitrary: rb) simp_all

lemma mapRunningBalance_last:
  "ts \<noteq> [] \<Longrightarrow> runningBalance (last (mapRunningBalance rb ts)) = foldl applyRow rb ts"
proof (induction ts arbitrary: rb)
  case Nil
  then show ?case by simp
next
  case (Cons t ts)
  show ?case
  proof (cases ts)
    case Nil
    then show ?thesis by (simp add: withBalance_def)
  next
    case (Cons u us)
    with Cons.IH [of "applyRow rb t"] show ?thesis by simp
  qed
qed

lemma mapRunningBalance_eq_Nil [simp]: "mapRunningBalance rb ts = [] \<longleftrightarrow> ts = []"
  by (cases ts) simp_all

lemma date_withBalance [simp]: "date (withBalance t rb) = date t"
  by (simp add: withBalance_def)

lemma filter_mapRunningBalance_sorted:
  "sorted (map (\<lambda>e. getTime (date e)) ts) \<Longrightarrow>
   filter (\<lambda>e. getTime (date e) \<le> c) (mapRunningBalance rb ts) =
   mapRunningBalance rb (filter (\<lambda>e. getTime (date e) \<le> c) ts)"
proof (induction ts arbitrary: rb)
  case Nil
  then show ?case by simp
next
  case (Cons t ts)
  show ?case
  proof (cases "getTime (date t) \<le> c")
    case True
    with Cons show ?thesis by simp
  next
    case False
    with Cons.prems have "\<forall>u\<in>set ts. \<not> getTime (date u) \<le> c" by auto
    then have a: "filter (\<lambda>e. getTime (date e) \<le> c) ts = []" by (simp add: filter_empty_conv)
    from Cons.IH [of "applyRow rb t"] Cons.prems a
    have "filter (\<lambda>e. getTime (date e) \<le> c) (mapRunningBalance (applyRow rb t) ts) = []"
      by simp
    with False a show ?thesis by simp
  qed
qed

lemma balanceAt_mapRunningBalance:
  assumes "sorted (map (\<lambda>e. getTime (date e)) ts)"
  shows "balanceAt (mapRunningBalance 0 ts) d =
         sum_list (map signedAmount (filter (\<lambda>e. getTime (date e) \<le> getTime d) ts))"
proof -
  let ?f = "filter (\<lambda>e. getTime (date e) \<le> getTime d) ts"
  have eq: "filter (\<lambda>e. getTime (date e) \<le> getTime d) (mapRunningBalance 0 ts) =
            mapRunningBalance 0 ?f"
    using assms by (rule filter_mapRunningBalance_sorted)
  show ?thesis
  proof (cases ?f)
    case Nil
    then show ?thesis by (simp add: balanceAt_def eq)
  next
    case (Cons u us)
    then have ne: "?f \<noteq> []" by simp
    then have "mapRunningBalance 0 ?f \<noteq> []" by simp
    then obtain r rs where rr: "mapRunningBalance 0 ?f = r # rs"
      by (cases "mapRunningBalance 0 ?f") auto
    have "balanceAt (mapRunningBalance 0 ts) d = runningBalance (last (mapRunningBalance 0 ?f))"
      by (simp add: balanceAt_def eq rr)
    also have "\<dots> = foldl applyRow 0 ?f" using ne by (rule mapRunningBalance_last)
    finally show ?thesis by (simp add: foldl_applyRow)
  qed
qed

lemma sum_filter_sort_key:
  fixes g :: "'a \<Rightarrow> rat"
  shows "sum_list (map g (filter P (sort_key k xs))) = sum_list (map g (filter P xs))"
proof -
  have "mset (filter P (sort_key k xs)) = mset (filter P xs)" by simp
  then have "mset (map g (filter P (sort_key k xs))) = mset (map g (filter P xs))"
    by (metis mset_map)
  then show ?thesis by (metis sum_mset_sum_list)
qed

lemma signed_rows_split:
  "sum_list (map signedAmount (filter (\<lambda>e. getTime (date e) \<le> c) (map toRow txs))) =
   sum_list (map txAmount (filter (\<lambda>t. isIncrease (txKind t) \<and> getTime (txDate t) \<le> c) txs))
   - sum_list (map txAmount (filter (\<lambda>t. isPayment (txKind t) \<and> getTime (txDate t) \<le> c) txs))"
proof (induction txs)
  case Nil
  then show ?case by simp
next
  case (Cons t txs)
  then show ?case
    by (cases "txKind t") (simp_all add: toRow_def signedAmount_def isIncrease_def isPayment_def)
qed

lemma insort_key_split:
  "sorted (map k L) \<Longrightarrow>
   insort_key k x L = filter (\<lambda>y. k y < k x) L @ x # filter (\<lambda>y. k x \<le> k y) L"
proof (induction L)
  case Nil
  then show ?case by simp
next
  case (Cons y ys)
  show ?case
  proof (cases "k x \<le> k y")
    case True
    with Cons.prems have "\<forall>z\<in>set (y # ys). k x \<le> k z" by auto
    then have "filter (\<lambda>y. k y < k x) (y # ys) = []"
      and "filter (\<lambda>y. k x \<le> k y) (y # ys) = y # ys"
      by (auto simp add: filter_empty_conv filter_id_conv)
    with True show ?thesis by simp
  next
    case False
    then have "k y < k x" by simp
    with False Cons show ?thesis by simp
  qed
qed

lemma allTransactions_split:
  "allTransactions d0 a txs = rowsBefore d0 txs @ initialRow d0 a # rowsFrom d0 txs"
proof -
  let ?k = "\<lambda>e::entry. getTime (date e)"
  have d: "?k (initialRow d0 a) = getTime d0" by (simp add: initialRow_def)
  have m: "\<And>P. filter (\<lambda>e. P (?k e)) (map toRow txs) =
                map toRow (filter (\<lambda>t. P (getTime (txDate t))) txs)"
    by (simp add: filter_map o_def toRow_def)
  have "allTransactions d0 a txs = insort_key ?k (initialRow d0 a) (sort_key ?k (map toRow txs))"
    by (simp add: allTransactions_def)
  also have "\<dots> = filter (\<lambda>y. ?k y < getTime d0) (sort_key ?k (map toRow txs))
      @ initialRow d0 a # filter (\<lambda>y. getTime d0 \<le> ?k y) (sort_key ?k (map toRow txs))"
    using insort_key_split [of ?k "sort_key ?k (map toRow txs)" "initialRow d0 a"]
    by (simp add: d)
  finally show ?thesis
    using m [of "\<lambda>v. v < getTime d0"] m [of "\<lambda>v. getTime d0 \<le> v"]
    by (simp add: filter_sort rowsBefore_def rowsFrom_def)
qed

lemma foldl_txAmount:
  "foldl (\<lambda>acc t. acc + txAmount t) acc ts = acc + sum_list (map txAmount ts)"
  by (induction ts arbitrary: acc) simp_all

lemmas ledger_example_defs =
  calculatedTransactions_def allTransactions_def mkLoan_def mkTx_def localTime_def
  initialRow_def toRow_def getTime_def applyRow_def withBalance_def balanceAt_def
  amountsUpTo_def isIncrease_def isPayment_def

subsection \<open>The ledger and the percentage paid off\<close>

text \<open>
  C1 (amended). For a loan whose settings carry a non-zero \<^verbatim>\<open>initialLoanAmount\<close> and an
  \<^verbatim>\<open>initialLoanDate\<close>, and for every list of transactions, the running balance of the
  fold at any point in time \<open>d\<close> is the sum of all \<^verbatim>\<open>loanIncrease\<close> and
  \<^verbatim>\<open>interest\<close> amounts dated on or before \<open>d\<close>, minus the sum of all \<^verbatim>\<open>payment\<close>
  amounts dated on or before \<open>d\<close>, plus \<^verbatim>\<open>initialLoanAmount\<close> when \<open>d\<close> is on or after
  \<^verbatim>\<open>initialLoanDate\<close> (before that date the initial amount is not yet in the
  balance). For 1000 lent on 2024-01-01 with an increase of 100 on 2024-01-15 and a
  payment of 200 on 2024-02-01 the balance sequence is 1000, 1100, 900.
\<close>

theorem ledger_balance_at_time:
  assumes "initialLoanAmount s = Some (Num a)" and "a \<noteq> 0" and "initialLoanDate s = Some d0"
  shows "balanceAt (calculatedTransactions s txs) d =
           (if getTime d0 \<le> getTime d then a else 0)
           + amountsUpTo isIncrease txs d - amountsUpTo isPayment txs d
         \<and> map runningBalance (calculatedTransactions loanA txsB) = [1000, 1100, 900]"
proof
  let ?k = "\<lambda>e::entry. getTime (date e)"
  let ?all = "initialRow d0 a # map toRow txs"
  have "balanceAt (calculatedTransactions s txs) d =
        balanceAt (mapRunningBalance 0 (sort_key ?k ?all)) d"
    using assms by (simp add: calculatedTransactions_def allTransactions_def)
  also have "\<dots> = sum_list (map signedAmount (filter (\<lambda>e. ?k e \<le> getTime d) (sort_key ?k ?all)))"
    by (rule balanceAt_mapRunningBalance) (rule sorted_sort_key)
  also have "\<dots> = sum_list (map signedAmount (filter (\<lambda>e. ?k e \<le> getTime d) ?all))"
    by (rule sum_filter_sort_key)
  also have "\<dots> = (if getTime d0 \<le> getTime d then a else 0)
           + sum_list (map signedAmount (filter (\<lambda>e. ?k e \<le> getTime d) (map toRow txs)))"
    by (simp add: initialRow_def signedAmount_def)
  finally show "balanceAt (calculatedTransactions s txs) d =
           (if getTime d0 \<le> getTime d then a else 0)
           + amountsUpTo isIncrease txs d - amountsUpTo isPayment txs d"
    by (simp add: signed_rows_split amountsUpTo_def)
next
  show "map runningBalance (calculatedTransactions loanA txsB) = [1000, 1100, 900]"
    by (simp add: ledger_example_defs loanA_def txsB_def)
qed

text \<open>The invariant of C1 at scenario B, on the day of the payment and five days after
  the increase.\<close>

theorem ledger_balance_at_time_witness:
  "initialLoanAmount loanA = Some (Num 1000) \<and> (1000 :: rat) \<noteq> 0
   \<and> initialLoanDate loanA = Some (localTime 2024 0 1 0)
   \<and> balanceAt (calculatedTransactions loanA txsB) (localTime 2024 1 1 0) = 900
   \<and> balanceAt (calculatedTransactions loanA txsB) (localTime 2024 0 20 0) = 1100"
  using ledger_balance_at_time [of loanA 1000 "localTime 2024 0 1 0" txsB "localTime 2024 1 1 0"]
    ledger_balance_at_time [of loanA 1000 "localTime 2024 0 1 0" txsB "localTime 2024 0 20 0"]
  by (simp add: loanA_def txsB_def mkLoan_def mkTx_def localTime_def getTime_def
      amountsUpTo_def isIncrease_def isPayment_def)

text \<open>C1 as it is written fails on the code. At the date of a payment of 200 made before
  the initial date the fold has -200, not 1000 - 200; and with an initial amount of 0
  the ledger is empty, so an increase of 100 leaves the balance at 0.\<close>

theorem ledger_balance_claim_counterexample:
  "initialLoanAmount loanA = Some (Num 1000)
   \<and> initialLoanDate loanA = Some (localTime 2024 0 1 0)
   \<and> balanceAt (calculatedTransactions loanA txsEarly) (localTime 2023 11 20 0) = - 200
   \<and> 1000 + amountsUpTo isIncrease txsEarly (localTime 2023 11 20 0)
          - amountsUpTo isPayment txsEarly (localTime 2023 11 20 0) = 800
   \<and> initialLoanAmount loanZero = Some (Num 0)
   \<and> initialLoanDate loanZero = Some (localTime 2024 0 1 0)
   \<and> balanceAt (calculatedTransactions loanZero txsIncrease) (localTime 2024 0 15 0) = 0
   \<and> 0 + amountsUpTo isIncrease txsIncrease (localTime 2024 0 15 0)
        - amountsUpTo isPayment txsIncrease (localTime 2024 0 15 0) = 100"
  by (simp add: ledger_example_defs loanA_def loanZero_def txsEarly_def txsIncrease_def)

text \<open>
  C10. The rows are sorted by date alone. For a configured loan the fold order is: the
  rows of the transactions dated strictly before \<^verbatim>\<open>initialLoanDate\<close>, then the synthetic
  initial row, then the other rows. Every transaction \<open>t\<close> dated strictly before the
  initial date has its row in the first part, which does not hold the initial row; the
  running balances of that part are accumulated from 0, without the initial amount, and
  they can be negative: a payment of 200 before the initial date of a loan of 1000
  gives the balances -200, 800.
\<close>

theorem initial_row_after_earlier_rows:
  assumes "initialLoanAmount s = Some (Num a)" and "a \<noteq> 0" and "initialLoanDate s = Some d0"
    and "t \<in> set txs" and "getTime (txDate t) < getTime d0"
  shows "calculatedTransactions s txs =
           mapRunningBalance 0 (rowsBefore d0 txs)
           @ mapRunningBalance (foldl applyRow 0 (rowsBefore d0 txs))
               (initialRow d0 a # rowsFrom d0 txs)
         \<and> toRow t \<in> set (rowsBefore d0 txs)
         \<and> initialRow d0 a \<notin> set (rowsBefore d0 txs)
         \<and> map runningBalance (calculatedTransactions loanA txsEarly) = [- 200, 800]"
proof (intro conjI)
  show "calculatedTransactions s txs =
           mapRunningBalance 0 (rowsBefore d0 txs)
           @ mapRunningBalance (foldl applyRow 0 (rowsBefore d0 txs))
               (initialRow d0 a # rowsFrom d0 txs)"
    using assms(1-3)
    by (simp add: calculatedTransactions_def allTransactions_split mapRunningBalance_append)
  show "toRow t \<in> set (rowsBefore d0 txs)"
    using assms(4,5) by (simp add: rowsBefore_def)
  show "initialRow d0 a \<notin> set (rowsBefore d0 txs)"
    by (auto simp add: rowsBefore_def initialRow_def toRow_def)
  show "map runningBalance (calculatedTransactions loanA txsEarly) = [- 200, 800]"
    by (simp add: ledger_example_defs loanA_def txsEarly_def)
qed

text \<open>The fold order of C10 for the payment made on 2023-12-20 against the loan of
  2024-01-01.\<close>

theorem initial_row_after_earlier_rows_witness:
  "initialLoanAmount loanA = Some (Num 1000) \<and> (1000 :: rat) \<noteq> 0
   \<and> initialLoanDate loanA = Some (localTime 2024 0 1 0)
   \<and> mkTx ''p0'' (localTime 2023 11 20 0) payment 200 \<in> set txsEarly
   \<and> getTime (txDate (mkTx ''p0'' (localTime 2023 11 20 0) payment 200))
       < getTime (localTime 2024 0 1 0)
   \<and> calculatedTransactions loanA txsEarly =
       mapRunningBalance 0 (rowsBefore (localTime 2024 0 1 0) txsEarly)
       @ mapRunningBalance (foldl applyRow 0 (rowsBefore (localTime 2024 0 1 0) txsEarly))
           (initialRow (localTime 2024 0 1 0) 1000 # rowsFrom (localTime 2024 0 1 0) txsEarly)
   \<and> toRow (mkTx ''p0'' (localTime 2023 11 20 0) payment 200)
       \<in> set (rowsBefore (localTime 2024 0 1 0) txsEarly)"
  using initial_row_after_earlier_rows [of loanA 1000 "localTime 2024 0 1 0"
      "mkTx ''p0'' (localTime 2023 11 20 0) payment 200" txsEarly]
  by (simp add: loanA_def txsEarly_def mkLoan_def mkTx_def localTime_def getTime_def)

text \<open>
  C9. For a loan with \<^verbatim>\<open>initialLoanAmount > 0\<close>, \<^verbatim>\<open>percentagePaidOff\<close> is the sum of the
  amounts of the \<^verbatim>\<open>payment\<close> transactions alone, divided by the initial amount, times
  100, clamped to the interval from 0 to 100. For 1000 lent and one payment of 200 it
  is 20.
\<close>

theorem percentagePaidOff_clamped:
  assumes "initialLoanAmount s = Some (Num a)" and "0 < a"
  shows "percentagePaidOff s txs =
           max 0 (min 100
             (sum_list (map txAmount (filter (\<lambda>t. txKind t = payment) txs)) / a * 100))
         \<and> percentagePaidOff loanA txsA = 20"
  using assms
  by (simp add: percentagePaidOff_def totalPrincipalPaid_def foldl_txAmount
      loanA_def txsA_def mkLoan_def mkTx_def)

text \<open>C9 at scenario B: the increase of 100 does not count, the percentage is 20.\<close>

theorem percentagePaidOff_clamped_witness:
  "initialLoanAmount loanA = Some (Num 1000) \<and> (0 :: rat) < 1000
   \<and> percentagePaidOff loanA txsB = 20"
  using percentagePaidOff_clamped [of loanA 1000 txsB]
  by (simp add: loanA_def txsB_def mkLoan_def mkTx_def)


subsection \<open>Facts about rounding to doubles\<close>

text \<open>Rounding to an integer stays within one half and is monotone.\<close>

lemma roundHalfEven_floor:
  "\<lfloor>m\<rfloor> \<le> roundHalfEven m \<and> roundHalfEven m \<le> \<lfloor>m\<rfloor> + 1"
  by (simp add: roundHalfEven_def Let_def)

lemma roundHalfEven_near:
  "m - 1 / 2 \<le> of_int (roundHalfEven m) \<and> of_int (roundHalfEven m) \<le> m + 1 / 2"
proof -
  define n where "n = \<lfloor>m\<rfloor>"
  have a: "of_int n \<le> m" and b: "m < of_int n + 1" unfolding n_def by linarith+
  have "roundHalfEven m = n \<and> m - of_int n \<le> 1 / 2
        \<or> roundHalfEven m = n + 1 \<and> 1 / 2 \<le> m - of_int n"
    unfolding roundHalfEven_def Let_def n_def [symmetric] by auto
  then show ?thesis
  proof
    assume "roundHalfEven m = n \<and> m - of_int n \<le> 1 / 2"
    with a show ?thesis by simp
  next
    assume "roundHalfEven m = n + 1 \<and> 1 / 2 \<le> m - of_int n"
    with b show ?thesis by simp
  qed
qed

lemma roundHalfEven_of_int [simp]: "roundHalfEven (of_int k) = k"
  by (simp add: roundHalfEven_def)

lemma roundHalfEven_ge_int:
  assumes "of_int k \<le> m"
  shows "k \<le> roundHalfEven m"
proof -
  from assms have "k \<le> \<lfloor>m\<rfloor>" by (simp add: le_floor_iff)
  with roundHalfEven_floor [of m] show ?thesis by linarith
qed

lemma roundHalfEven_le_int:
  assumes "m \<le> of_int k"
  shows "roundHalfEven m \<le> k"
proof (cases "m = of_int k")
  case True
  then show ?thesis by simp
next
  case False
  with assms have "m < of_int k" by simp
  then have "\<lfloor>m\<rfloor> < k" by (simp add: floor_less_iff)
  with roundHalfEven_floor [of m] show ?thesis by linarith
qed

lemma roundHalfEven_mono:
  assumes "m \<le> m'"
  shows "roundHalfEven m \<le> roundHalfEven m'"
proof (cases "\<lfloor>m\<rfloor> = \<lfloor>m'\<rfloor>")
  case True
  with assms have "m - of_int \<lfloor>m\<rfloor> \<le> m' - of_int \<lfloor>m'\<rfloor>" by simp
  with True show ?thesis by (auto simp add: roundHalfEven_def Let_def)
next
  case False
  with assms have "\<lfloor>m\<rfloor> < \<lfloor>m'\<rfloor>" using floor_mono [OF assms] by linarith
  with roundHalfEven_floor [of m] roundHalfEven_floor [of m'] show ?thesis by linarith
qed

text \<open>The exponent \<open>q\<close> of \<open>nearestDouble\<close> puts the scaled number below \<open>2\<^sup>5\<^sup>3\<close>
  and, from the second binade on, at \<open>2\<^sup>5\<^sup>2\<close> or above; it grows with the number, so
  rounding to a double is monotone.\<close>

lemma scaled_binade:
  fixes s :: rat
  assumes "0 \<le> s"
  defines "q \<equiv> nat (bitlen \<lfloor>s\<rfloor> - 53)"
  shows "s < 2 ^ (q + 53)" and "1 \<le> q \<Longrightarrow> 2 ^ (q + 52) \<le> s"
proof -
  let ?n = "\<lfloor>s\<rfloor>"
  have n0: "0 \<le> ?n" using assms(1) by simp
  have up: "s < 2 ^ (q + 53)"
  proof (cases "?n = 0")
    case True
    then have "s < 1" by (metis floor_less_iff of_int_1 zero_less_one)
    also have "(1::rat) \<le> 2 ^ (q + 53)" by simp
    finally show ?thesis .
  next
    case False
    with n0 have pos: "0 < ?n" by linarith
    from bitlen_bounds [OF pos] have "?n < 2 ^ nat (bitlen ?n)" by simp
    also have "\<dots> \<le> 2 ^ (q + 53)"
      by (intro power_increasing) (simp_all add: q_def)
    finally have "?n < 2 ^ (q + 53)" .
    then have "?n + 1 \<le> 2 ^ (q + 53)" by simp
    then have "(of_int (?n + 1) :: rat) \<le> of_int (2 ^ (q + 53))" by (simp only: of_int_le_iff)
    moreover have "s < of_int (?n + 1)" by linarith
    ultimately show ?thesis by simp
  qed
  show "s < 2 ^ (q + 53)" by (rule up)
  show "2 ^ (q + 52) \<le> s" if "1 \<le> q"
  proof -
    from that have b: "bitlen ?n = int q + 53" by (simp add: q_def)
    then have pos: "0 < ?n" using bitlen_eq_zero_iff [of ?n] n0
      by (metis add_is_0 bitlen_zero int_eq_iff_numeral less_le nat_int of_nat_0 of_nat_add
          zero_neq_numeral)
    from bitlen_bounds [OF pos] have "2 ^ nat (bitlen ?n - 1) \<le> ?n" by simp
    moreover have "nat (bitlen ?n - 1) = q + 52" using b by simp
    ultimately have "2 ^ (q + 52) \<le> ?n" by simp
    then have "(of_int (2 ^ (q + 52)) :: rat) \<le> of_int ?n" by (simp only: of_int_le_iff)
    also have "\<dots> \<le> s" by (rule of_int_floor_le)
    finally show ?thesis by simp
  qed
qed


lemma exponent_mono:
  fixes s t :: rat
  assumes "s \<le> t"
  shows "nat (bitlen \<lfloor>s\<rfloor> - 53) \<le> nat (bitlen \<lfloor>t\<rfloor> - 53)"
proof -
  have "nat \<lfloor>s\<rfloor> \<le> nat \<lfloor>t\<rfloor>" using assms by (intro nat_mono floor_mono)
  then have "floorlog 2 (nat \<lfloor>s\<rfloor>) \<le> floorlog 2 (nat \<lfloor>t\<rfloor>)" by (rule floorlog_mono)
  then have "bitlen \<lfloor>s\<rfloor> \<le> bitlen \<lfloor>t\<rfloor>" unfolding bitlen_def by simp
  then show ?thesis by (intro nat_mono) simp
qed

lemma nearestDouble_nonneg:
  assumes "0 \<le> x"
  shows "0 \<le> nearestDouble x"
proof -
  have "0 \<le> roundHalfEven (x * 2 ^ 1074 / 2 ^ nat (bitlen \<lfloor>x * 2 ^ 1074\<rfloor> - 53))"
    using assms by (intro roundHalfEven_ge_int) simp
  then show ?thesis by (simp add: nearestDouble_def Let_def)
qed

lemma nearestDouble_mono:
  assumes "0 \<le> x" and "x \<le> y"
  shows "nearestDouble x \<le> nearestDouble y"
proof -
  define s t where "s = x * 2 ^ 1074" and "t = y * 2 ^ 1074"
  define p q where "p = nat (bitlen \<lfloor>s\<rfloor> - 53)" and "q = nat (bitlen \<lfloor>t\<rfloor> - 53)"
  have s0: "0 \<le> s" and st: "s \<le> t" using assms by (simp_all add: s_def t_def)
  then have t0: "0 \<le> t" by simp
  have pq: "p \<le> q" unfolding p_def q_def using st by (rule exponent_mono)
  have key: "of_int (roundHalfEven (s / 2 ^ p)) * 2 ^ p
               \<le> (of_int (roundHalfEven (t / 2 ^ q)) * 2 ^ q :: rat)"
  proof (cases "p = q")
    case True
    have "s / 2 ^ q \<le> t / 2 ^ q" using st by (simp add: divide_right_mono)
    then have "roundHalfEven (s / 2 ^ q) \<le> roundHalfEven (t / 2 ^ q)"
      by (rule roundHalfEven_mono)
    then have "(of_int (roundHalfEven (s / 2 ^ q)) :: rat) \<le> of_int (roundHalfEven (t / 2 ^ q))"
      by simp
    then show ?thesis unfolding True by (intro mult_right_mono) simp_all
  next
    case False
    with pq have lt: "p < q" and q1: "1 \<le> q" by simp_all
    have "s < 2 ^ (p + 53)" using scaled_binade(1) [OF s0] by (simp add: p_def)
    then have "s / 2 ^ p \<le> of_int (2 ^ 53)"
      by (simp add: divide_le_eq power_add mult.commute)
    then have "roundHalfEven (s / 2 ^ p) \<le> 2 ^ 53" by (rule roundHalfEven_le_int)
    then have "(of_int (roundHalfEven (s / 2 ^ p)) :: rat) \<le> of_int (2 ^ 53)"
      by (simp only: of_int_le_iff)
    then have "of_int (roundHalfEven (s / 2 ^ p)) * 2 ^ p \<le> (2 ^ 53 * 2 ^ p :: rat)"
      by (intro mult_right_mono) simp_all
    also have "\<dots> = 2 ^ (p + 53)" by (simp add: power_add)
    also have "\<dots> \<le> 2 ^ (q + 52)" using lt by (intro power_increasing) simp_all
    also have "\<dots> = 2 ^ 52 * 2 ^ q" by (simp add: power_add)
    also have "\<dots> \<le> of_int (roundHalfEven (t / 2 ^ q)) * 2 ^ q"
    proof (intro mult_right_mono)
      have "2 ^ (q + 52) \<le> t" using scaled_binade(2) [OF t0] q1 by (simp add: q_def)
      then have "of_int (2 ^ 52) \<le> t / 2 ^ q"
        by (simp add: le_divide_eq power_add mult.commute)
      then have "2 ^ 52 \<le> roundHalfEven (t / 2 ^ q)" by (rule roundHalfEven_ge_int)
      then have "(of_int (2 ^ 52) :: rat) \<le> of_int (roundHalfEven (t / 2 ^ q))"
        by (simp only: of_int_le_iff)
      then show "(2 ^ 52 :: rat) \<le> of_int (roundHalfEven (t / 2 ^ q))" by simp
    qed simp
    finally show ?thesis .
  qed
  have "of_int (roundHalfEven (s / 2 ^ p)) * 2 ^ p / 2 ^ 1074
          \<le> (of_int (roundHalfEven (t / 2 ^ q)) * 2 ^ q / 2 ^ 1074 :: rat)"
    using key by (rule divide_right_mono) simp
  then show ?thesis
    by (simp add: nearestDouble_def Let_def s_def t_def p_def q_def)
qed

lemma toDouble_mono:
  assumes "x \<le> y"
  shows "toDouble x \<le> toDouble y"
proof (cases "x < 0")
  case False
  with assms show ?thesis by (simp add: toDouble_def nearestDouble_mono)
next
  case True
  show ?thesis
  proof (cases "y < 0")
    case True
    with assms have "nearestDouble (- y) \<le> nearestDouble (- x)"
      by (intro nearestDouble_mono) simp_all
    with True \<open>x < 0\<close> show ?thesis by (simp add: toDouble_def)
  next
    case False
    have "0 \<le> nearestDouble (- x)" using \<open>x < 0\<close> by (intro nearestDouble_nonneg) simp
    moreover have "0 \<le> nearestDouble y" using False by (intro nearestDouble_nonneg) simp
    ultimately show ?thesis using False \<open>x < 0\<close> by (simp add: toDouble_def)
  qed
qed

lemma toDouble_0 [simp]: "toDouble 0 = 0"
  by (simp add: toDouble_def nearestDouble_def roundHalfEven_def)

lemma toDouble_nonneg: "0 \<le> x \<Longrightarrow> 0 \<le> toDouble x"
  using toDouble_mono [of 0 x] by simp

lemma toDouble_nonpos: "x \<le> 0 \<Longrightarrow> toDouble x \<le> 0"
  using toDouble_mono [of x 0] by simp

text \<open>Evaluation: a number that \<open>2 ^ a\<close> scales into the interval from \<open>2\<^sup>5\<^sup>2\<close> to
  \<open>2\<^sup>5\<^sup>3\<close> is rounded to a multiple of \<open>1 / 2 ^ a\<close>.\<close>

lemma nearestDouble_scaled:
  fixes x :: rat
  assumes "a \<le> 1074" and "2 ^ 52 \<le> x * 2 ^ a" and "x * 2 ^ a < 2 ^ 53"
  shows "nearestDouble x = of_int (roundHalfEven (x * 2 ^ a)) / 2 ^ a"
proof -
  define k where "k = 1074 - a"
  have ka: "k + a = 1074" using assms(1) by (simp add: k_def)
  define s where "s = x * 2 ^ 1074"
  have s: "s = x * 2 ^ a * 2 ^ k"
    unfolding s_def by (simp add: ka [symmetric] power_add mult.commute mult.left_commute)
  have lo: "2 ^ (k + 52) \<le> s"
  proof -
    have "2 ^ 52 * 2 ^ k \<le> x * 2 ^ a * (2 ^ k :: rat)"
      using assms(2) by (intro mult_right_mono) simp_all
    then show ?thesis by (simp add: s power_add mult.commute)
  qed
  have hi: "s < 2 ^ (k + 53)"
  proof -
    have "x * 2 ^ a * 2 ^ k < 2 ^ 53 * (2 ^ k :: rat)"
      using assms(3) by (intro mult_strict_right_mono) simp_all
    then show ?thesis by (simp add: s power_add mult.commute)
  qed
  have "(of_int (2 ^ (k + 52)) :: rat) \<le> s" using lo by simp
  then have flo: "2 ^ (k + 52) \<le> \<lfloor>s\<rfloor>" by (simp only: le_floor_iff)
  have "s < of_int (2 ^ (k + 53))" using hi by simp
  then have fhi: "\<lfloor>s\<rfloor> < 2 ^ (k + 53)" by (simp only: floor_less_iff)
  have "bitlen \<lfloor>s\<rfloor> = int (k + 53)"
  proof (rule antisym)
    show "bitlen \<lfloor>s\<rfloor> \<le> int (k + 53)" using fhi by (simp add: bitlen_le_iff_power nat_add_distrib)
    show "int (k + 53) \<le> bitlen \<lfloor>s\<rfloor>"
      using flo by (simp add: bitlen_ge_iff_power nat_add_distrib add.commute)
  qed
  then have q: "nat (bitlen \<lfloor>s\<rfloor> - 53) = k" by simp
  have d: "s / 2 ^ k = x * 2 ^ a" by (simp add: s)
  have "nearestDouble x = of_int (roundHalfEven (s / 2 ^ k)) * 2 ^ k / 2 ^ 1074"
    by (simp only: nearestDouble_def Let_def s_def [symmetric] q)
  also have "\<dots> = of_int (roundHalfEven (x * 2 ^ a)) * 2 ^ k / (2 ^ k * 2 ^ a)"
    by (simp only: d ka [symmetric] power_add)
  also have "\<dots> = of_int (roundHalfEven (x * 2 ^ a)) / 2 ^ a" by simp
  finally show ?thesis .
qed

lemma toDouble_scaled:
  fixes x :: rat
  assumes "a \<le> 1074" and "2 ^ 52 \<le> x * 2 ^ a" and "x * 2 ^ a < 2 ^ 53"
  shows "toDouble x = of_int (roundHalfEven (x * 2 ^ a)) / 2 ^ a"
proof -
  have "0 < x * 2 ^ a" using assms(2) by (rule less_le_trans [rotated]) simp
  then have "0 < x" by (simp add: zero_less_mult_iff)
  then show ?thesis by (simp add: toDouble_def nearestDouble_scaled [OF assms])
qed

lemma floor_rat_numeral: "\<lfloor>numeral a / numeral b :: rat\<rfloor> = numeral a div numeral b"
  by (metis floor_divide_of_int_eq of_int_numeral)

lemmas double_eval = roundHalfEven_def Let_def floor_rat_numeral

text \<open>A double is rounded to itself.\<close>

lemma nearestDouble_unfold:
  "nearestDouble (s / 2 ^ 1074) =
     of_int (roundHalfEven (s / 2 ^ nat (bitlen \<lfloor>s\<rfloor> - 53))) * 2 ^ nat (bitlen \<lfloor>s\<rfloor> - 53)
       / 2 ^ 1074"
proof -
  have "s / 2 ^ 1074 * 2 ^ 1074 = s" by simp
  then show ?thesis by (simp only: nearestDouble_def Let_def)
qed

lemma roundHalfEven_representable:
  fixes q :: nat
  assumes "0 \<le> n" and "n \<le> 2 ^ 53" and q'_def: "q' = nat (bitlen (n * 2 ^ q) - 53)"
  shows "roundHalfEven (of_int (n * 2 ^ q) / 2 ^ q') * 2 ^ q' = n * 2 ^ q"
proof (cases "n = 2 ^ 53")
  case True
  have "bitlen (2 ^ (53 + q)) = int (53 + q) + 1"
    using bitlen_twopow_add_eq [where w = "53 + q" and b = 0] by simp
  then have "q' = q + 1" by (simp add: q'_def True power_add)
  moreover have "(of_int (2 ^ 53 * 2 ^ q) :: rat) / 2 ^ (q + 1) = of_int (2 ^ 52)" by simp
  ultimately have "roundHalfEven (of_int (n * 2 ^ q) / 2 ^ q') = 2 ^ 52"
    by (simp only: True roundHalfEven_of_int)
  then show ?thesis by (simp add: True \<open>q' = q + 1\<close>)
next
  case False
  with assms(2) have "n < 2 ^ 53" by simp
  then have "n * 2 ^ q < 2 ^ 53 * 2 ^ q" by (intro mult_strict_right_mono) simp_all
  then have "n * 2 ^ q < 2 ^ (53 + q)" by (simp add: power_add)
  then have "bitlen (n * 2 ^ q) \<le> int (53 + q)" unfolding bitlen_le_iff_power nat_int by simp
  then have "q' \<le> q" by (simp add: q'_def)
  then obtain d where q: "q = q' + d" by (auto simp add: le_iff_add)
  have "(of_int (n * 2 ^ q) :: rat) / 2 ^ q' = of_int (n * 2 ^ d)"
    by (simp add: q power_add)
  then have "roundHalfEven (of_int (n * 2 ^ q) / 2 ^ q') = n * 2 ^ d"
    by (simp only: roundHalfEven_of_int)
  then show ?thesis by (simp add: q power_add)
qed

lemma nearestDouble_representable:
  assumes "0 \<le> n" and "n \<le> 2 ^ 53"
  shows "nearestDouble (of_int (n * 2 ^ q) / 2 ^ 1074) = of_int (n * 2 ^ q) / 2 ^ 1074"
proof -
  have "(of_int (roundHalfEven (of_int (n * 2 ^ q) / 2 ^ nat (bitlen (n * 2 ^ q) - 53))
           * 2 ^ nat (bitlen (n * 2 ^ q) - 53)) :: rat) = of_int (n * 2 ^ q)"
    by (simp only: roundHalfEven_representable [OF assms refl])
  then have "(of_int (roundHalfEven (of_int (n * 2 ^ q) / 2 ^ nat (bitlen (n * 2 ^ q) - 53)))
           * 2 ^ nat (bitlen (n * 2 ^ q) - 53) :: rat) = of_int (n * 2 ^ q)"
    by simp
  then show ?thesis
    by (simp only: nearestDouble_unfold floor_of_int)
qed

lemma nearestDouble_form:
  assumes "0 \<le> x"
  shows "\<exists>n q. 0 \<le> n \<and> n \<le> 2 ^ 53 \<and> nearestDouble x = of_int (n * 2 ^ q) / 2 ^ 1074"
proof -
  define s where "s = x * 2 ^ 1074"
  define q where "q = nat (bitlen \<lfloor>s\<rfloor> - 53)"
  define n where "n = roundHalfEven (s / 2 ^ q)"
  have s0: "0 \<le> s" using assms by (simp add: s_def)
  then have "0 \<le> n" unfolding n_def by (intro roundHalfEven_ge_int) simp
  moreover have "n \<le> 2 ^ 53"
  proof -
    have "s < 2 ^ (q + 53)" using scaled_binade(1) [OF s0] by (simp add: q_def)
    then have "s / 2 ^ q \<le> of_int (2 ^ 53)"
      by (simp add: divide_le_eq power_add mult.commute)
    then show ?thesis unfolding n_def by (rule roundHalfEven_le_int)
  qed
  moreover have "nearestDouble x = of_int (n * 2 ^ q) / 2 ^ 1074"
    by (simp add: nearestDouble_def Let_def s_def q_def n_def)
  ultimately show ?thesis by blast
qed

lemma nearestDouble_idem:
  assumes "0 \<le> x"
  shows "nearestDouble (nearestDouble x) = nearestDouble x"
proof -
  from nearestDouble_form [OF assms] obtain n q
    where "0 \<le> n" "n \<le> 2 ^ 53" "nearestDouble x = of_int (n * 2 ^ q) / 2 ^ 1074" by blast
  then show ?thesis by (simp only: nearestDouble_representable)
qed

lemma toDouble_idem [simp]: "toDouble (toDouble x) = toDouble x"
proof (cases "x < 0")
  case False
  then have "0 \<le> nearestDouble x" by (intro nearestDouble_nonneg) simp
  with False show ?thesis by (simp add: toDouble_def nearestDouble_idem)
next
  case True
  then have x: "0 \<le> - x" by simp
  have nn: "0 \<le> nearestDouble (- x)" using x by (rule nearestDouble_nonneg)
  show ?thesis
  proof (cases "nearestDouble (- x) = 0")
    case True
    with \<open>x < 0\<close> show ?thesis using toDouble_0 by (simp add: toDouble_def)
  next
    case False
    with nn have "0 < nearestDouble (- x)" by simp
    with \<open>x < 0\<close> show ?thesis by (simp add: toDouble_def nearestDouble_idem [OF x])
  qed
qed

text \<open>The rounding error is at most half a unit in the last place.\<close>

lemma nearestDouble_abs_err:
  assumes "0 \<le> x" and "a \<le> 1074" and "x * 2 ^ a < 2 ^ 53"
  shows "\<bar>nearestDouble x - x\<bar> \<le> 1 / 2 ^ (a + 1)"
proof -
  define k where "k = 1074 - a"
  have ka: "k + a = 1074" using assms(2) by (simp add: k_def)
  have pw: "(2::rat) ^ 1074 = 2 ^ k * 2 ^ a" by (simp only: ka [symmetric] power_add)
  define s where "s = x * 2 ^ 1074"
  define q where "q = nat (bitlen \<lfloor>s\<rfloor> - 53)"
  define m where "m = s / 2 ^ q"
  have s: "s = x * 2 ^ a * 2 ^ k" unfolding s_def pw by simp
  have "x * 2 ^ a * 2 ^ k < 2 ^ 53 * (2 ^ k :: rat)"
    using assms(3) by (intro mult_strict_right_mono) simp_all
  then have "s < of_int (2 ^ (k + 53))" by (simp add: s power_add mult.commute)
  then have "\<lfloor>s\<rfloor> < 2 ^ (k + 53)" by (simp only: floor_less_iff)
  then have "bitlen \<lfloor>s\<rfloor> \<le> int (k + 53)" unfolding bitlen_le_iff_power nat_int by simp
  then have qk: "q \<le> k" by (simp add: q_def)
  have x: "x = m * 2 ^ q / 2 ^ 1074" by (simp add: m_def s_def)
  have nd: "nearestDouble x = of_int (roundHalfEven m) * 2 ^ q / 2 ^ 1074"
    by (simp only: nearestDouble_def Let_def s_def [symmetric] q_def [symmetric] m_def)
  have "nearestDouble x - x = (of_int (roundHalfEven m) - m) * (2 ^ q / 2 ^ 1074)"
    by (subst (2) x) (simp only: nd diff_divide_distrib left_diff_distrib times_divide_eq_right)
  then have "\<bar>nearestDouble x - x\<bar> = \<bar>of_int (roundHalfEven m) - m\<bar> * (2 ^ q / 2 ^ 1074)"
    by (simp only: abs_mult) simp
  also have "\<dots> \<le> (1 / 2) * (2 ^ q / 2 ^ 1074)"
  proof (intro mult_right_mono)
    show "\<bar>of_int (roundHalfEven m) - m\<bar> \<le> 1 / 2"
      using roundHalfEven_near [of m] by linarith
  qed simp
  also have "\<dots> \<le> (1 / 2) * (2 ^ k / 2 ^ 1074)"
  proof -
    have "(2::rat) ^ q \<le> 2 ^ k" using qk by (intro power_increasing) simp_all
    then have "(2::rat) ^ q / 2 ^ 1074 \<le> 2 ^ k / 2 ^ 1074" by (intro divide_right_mono) simp_all
    then show ?thesis by (intro mult_left_mono) simp_all
  qed
  also have "\<dots> = 1 / 2 ^ (a + 1)" unfolding pw by simp
  finally show ?thesis .
qed

lemma toDouble_abs_err:
  assumes "a \<le> 1074" and "\<bar>x\<bar> * 2 ^ a < 2 ^ 53"
  shows "\<bar>toDouble x - x\<bar> \<le> 1 / 2 ^ (a + 1)"
proof (cases "x < 0")
  case False
  then show ?thesis using nearestDouble_abs_err [of x a] assms by (simp add: toDouble_def)
next
  case True
  then have "\<bar>nearestDouble (- x) - (- x)\<bar> \<le> 1 / 2 ^ (a + 1)"
    using assms by (intro nearestDouble_abs_err) simp_all
  moreover have "\<bar>- nearestDouble (- x) - x\<bar> = \<bar>nearestDouble (- x) - (- x)\<bar>"
    by (simp add: abs_minus_commute)
  ultimately show ?thesis using True by (simp add: toDouble_def)
qed

text \<open>A positive double is at least \<open>2\<^sup>-\<^sup>1\<^sup>0\<^sup>7\<^sup>4\<close>, and subtracting a double of at
  least \<open>2\<^sup>-\<^sup>5\<^sup>2\<close> times a positive double \<open>b\<close> from \<open>b\<close> gives a double below
  \<open>b\<close>.\<close>

lemma toDouble_minus: "toDouble (- x) = - toDouble x"
proof (cases "x = 0")
  case True
  then show ?thesis by simp
next
  case False
  then show ?thesis by (cases "x < 0") (simp_all add: toDouble_def)
qed

lemma positive_double_ge_min:
  assumes "0 < toDouble z"
  shows "1 / 2 ^ 1074 \<le> toDouble z"
proof -
  have z: "0 \<le> z"
  proof (rule ccontr)
    assume "\<not> 0 \<le> z"
    then have "toDouble z \<le> 0" by (intro toDouble_nonpos) simp
    with assms show False by simp
  qed
  then have td: "toDouble z = nearestDouble z" by (simp add: toDouble_def)
  from nearestDouble_form [OF z] obtain n q
    where eq: "nearestDouble z = of_int (n * 2 ^ q) / 2 ^ 1074" by blast
  from assms have "0 < (of_int (n * 2 ^ q) :: rat) / 2 ^ 1074" by (simp only: td eq)
  then have "0 < (of_int (n * 2 ^ q) :: rat)" by (simp only: zero_less_divide_iff) simp
  then have "0 < n * 2 ^ q" by (simp only: of_int_0_less_iff)
  then have "1 \<le> n * 2 ^ q" by simp
  then have "(of_int 1 :: rat) \<le> of_int (n * 2 ^ q)" by (simp only: of_int_le_iff)
  then have "(1 :: rat) / 2 ^ 1074 \<le> of_int (n * 2 ^ q) / 2 ^ 1074"
    by (intro divide_right_mono) simp_all
  then show ?thesis by (simp only: td eq)
qed

lemma toDouble_sub_less:
  assumes "0 < b" and "toDouble b = b" and "b / 2 ^ 52 \<le> toDouble z"
  shows "toDouble (b - toDouble z) < b"
proof -
  define P :: rat where "P = 2 ^ 1074"
  have P0: "0 < P" by (simp add: P_def)
  define s where "s = b * P"
  define q where "q = nat (bitlen \<lfloor>s\<rfloor> - 53)"
  define N where "N = roundHalfEven (s / 2 ^ q)"
  have s0: "0 \<le> s" using assms(1) P0 by (simp add: s_def)
  have pos: "0 < toDouble z"
  proof -
    have "0 < b / 2 ^ 52" using assms(1) by simp
    with assms(3) show ?thesis by simp
  qed
  have "nearestDouble b = b" using assms(1,2) by (simp add: toDouble_def)
  then have b: "b = of_int N * 2 ^ q / P"
    by (simp only: nearestDouble_def Let_def P_def [symmetric] s_def [symmetric]
        q_def [symmetric] N_def [symmetric])
  have "0 < of_int N * 2 ^ q / P" using assms(1) b by simp
  then have "0 < (of_int N :: rat)" using P0 by (simp add: zero_less_divide_iff zero_less_mult_iff)
  then have N1: "1 \<le> N" by simp
  have N53: "N \<le> 2 ^ 53"
  proof -
    have "s < 2 ^ (q + 53)" using scaled_binade(1) [OF s0] by (simp add: q_def)
    then have "s / 2 ^ q \<le> of_int (2 ^ 53)"
      by (simp add: divide_le_eq power_add mult.commute)
    then show ?thesis unfolding N_def by (rule roundHalfEven_le_int)
  qed
  define y where "y = of_int ((N - 1) * 2 ^ q) / P"
  have y0: "0 \<le> y" using N1 P0 by (simp add: y_def)
  have "nearestDouble y = y"
    unfolding y_def P_def using N1 N53 by (intro nearestDouble_representable) simp_all
  with y0 have ty: "toDouble y = y" by (simp add: toDouble_def)
  have yb: "y = b - 2 ^ q / P"
    by (subst b) (simp add: y_def algebra_simps diff_divide_distrib)
  have u: "2 ^ q / P \<le> toDouble z"
  proof (cases "q = 0")
    case True
    with positive_double_ge_min [OF pos] show ?thesis by (simp add: P_def)
  next
    case False
    then have "1 \<le> q" by simp
    with scaled_binade(2) [OF s0] have "2 ^ (q + 52) \<le> s" by (simp add: q_def)
    then have "2 ^ q * 2 ^ 52 \<le> b * P" by (simp add: s_def power_add)
    then have "2 ^ q / P \<le> b / 2 ^ 52" using P0 by (simp add: field_simps)
    from this assms(3) show ?thesis by (rule order_trans)
  qed
  have "b - toDouble z \<le> y" using u yb by simp
  then have "toDouble (b - toDouble z) \<le> toDouble y" by (rule toDouble_mono)
  moreover have "y < b" using yb P0 by simp
  ultimately show ?thesis using ty by simp
qed

subsection \<open>Facts about the amortization loop\<close>

text \<open>The handler and its loop, one turn at a time.\<close>

lemma handleCalculateProjections_Some:
  "handleCalculateProjections (Some typed) rate balance st =
     (if toDouble typed \<le> 0 then st\<lparr>notificationState := Some InvalidPayment\<rparr>
      else if toDouble typed \<le> toDouble (balance * monthlyRateOf rate)
      then st\<lparr>notificationState := Some PaymentTooSmall, amortizationSchedule := []\<rparr>
      else st\<lparr>amortizationSchedule :=
                amortizationLoop (toDouble typed) (monthlyRateOf rate) balance 1 []\<rparr>)"
  by (simp add: handleCalculateProjections_def monthlyRateOf_def Let_def)

lemma handleCalculateProjections_rejects:
  shows "handleCalculateProjections None rate balance st
           = st\<lparr>notificationState := Some InvalidPayment\<rparr>"
    and "p \<le> 0 \<Longrightarrow>
         handleCalculateProjections (Some p) rate balance st
           = st\<lparr>notificationState := Some InvalidPayment\<rparr>"
    and "0 < toDouble p \<Longrightarrow> toDouble p \<le> toDouble (balance * monthlyRateOf rate) \<Longrightarrow>
         handleCalculateProjections (Some p) rate balance st
           = st\<lparr>notificationState := Some PaymentTooSmall, amortizationSchedule := []\<rparr>"
proof -
  show "handleCalculateProjections None rate balance st
           = st\<lparr>notificationState := Some InvalidPayment\<rparr>"
    by (simp add: handleCalculateProjections_def)
  show "handleCalculateProjections (Some p) rate balance st
           = st\<lparr>notificationState := Some InvalidPayment\<rparr>" if "p \<le> 0"
    using toDouble_nonpos [OF that] by (simp add: handleCalculateProjections_Some)
  show "handleCalculateProjections (Some p) rate balance st
           = st\<lparr>notificationState := Some PaymentTooSmall, amortizationSchedule := []\<rparr>"
    if "0 < toDouble p" and "toDouble p \<le> toDouble (balance * monthlyRateOf rate)"
    using that by (simp add: handleCalculateProjections_Some)
qed

lemma amortizationLoop_stop:
  assumes "\<not> (0 < b \<and> m < 600)"
  shows "amortizationLoop p r b m sched = sched"
  using assms by (subst amortizationLoop.simps) (simp only: if_False)

lemma amortizationLoop_step:
  "0 < b \<Longrightarrow> m < 600 \<Longrightarrow>
   amortizationLoop p r b m sched =
     amortizationLoop p r (nextBalance p r b) (m + 1) (sched @ [scheduleRow p r b m])"
  by (subst amortizationLoop.simps) (simp add: Let_def nextBalance_def scheduleRow_def)

lemma amortizationLoop_stuck:
  assumes "0 < b" and "nextBalance p r b = b"
  shows "amortizationLoop p r b m sched = sched @ map (scheduleRow p r b) [m..<600]"
proof (induction "600 - m" arbitrary: m sched)
  case 0
  then show ?case by (simp add: amortizationLoop_stop)
next
  case (Suc n)
  then have m: "m < 600" and n: "n = 600 - (m + 1)" by simp_all
  have "amortizationLoop p r b m sched
          = amortizationLoop p r b (m + 1) (sched @ [scheduleRow p r b m])"
    using assms m by (simp only: amortizationLoop_step)
  also have "\<dots> = (sched @ [scheduleRow p r b m]) @ map (scheduleRow p r b) [m + 1..<600]"
    by (rule Suc.hyps(1) [OF n])
  also have "\<dots> = sched @ map (scheduleRow p r b) [m..<600]"
    using m by (simp add: upt_conv_Cons)
  finally show ?case .
qed

text \<open>The balance never increases, the schedule is at most 599 rows long, a shorter
  one ends at 0, and the balance falls wherever the principal is not lost to
  rounding.\<close>

lemma sorted_wrt_snoc: "sorted_wrt P (xs @ [y]) \<longleftrightarrow> sorted_wrt P xs \<and> (\<forall>x\<in>set xs. P x y)"
  by (simp add: sorted_wrt_append)

lemma nextBalance_double [simp]: "toDouble (nextBalance p r b) = nextBalance p r b"
  by (simp add: nextBalance_def)

lemma nextBalance_le:
  assumes "toDouble b = b" and "toDouble (b * r) < p"
  shows "nextBalance p r b \<le> b"
proof -
  have "0 \<le> toDouble (p - toDouble (b * r))" using assms(2) by (intro toDouble_nonneg) simp
  then have "toDouble (b - toDouble (p - toDouble (b * r))) \<le> toDouble b"
    by (intro toDouble_mono) simp
  then show ?thesis by (simp only: nextBalance_def assms(1))
qed

lemma endingBalance_scheduleRow: "endingBalance (scheduleRow p r b m) = max (nextBalance p r b) 0"
  by (simp add: scheduleRow_def max_def)

lemma amortizationLoop_nonincreasing:
  assumes "0 \<le> r"
    and "toDouble b = b"
    and "0 < b \<Longrightarrow> toDouble (b * r) < p"
    and "sorted_wrt (\<lambda>x y. y \<le> x) (c # map endingBalance sched)"
    and "\<forall>v\<in>set (c # map endingBalance sched). b \<le> v \<and> 0 \<le> v"
  shows "sorted_wrt (\<lambda>x y. y \<le> x) (c # map endingBalance (amortizationLoop p r b m sched))
         \<and> (\<forall>v\<in>set (c # map endingBalance (amortizationLoop p r b m sched)). 0 \<le> v)"
  using assms(2-)
proof (induction "600 - m" arbitrary: b m sched)
  case 0
  then have "amortizationLoop p r b m sched = sched" by (simp add: amortizationLoop_stop)
  with "0.prems" show ?case by simp
next
  case (Suc n)
  show ?case
  proof (cases "0 < b")
    case False
    then have "amortizationLoop p r b m sched = sched" by (simp add: amortizationLoop_stop)
    with Suc.prems show ?thesis by simp
  next
    case True
    from Suc.hyps(2) have m: "m < 600" and n: "n = 600 - (m + 1)" by simp_all
    define b' where "b' = nextBalance p r b"
    define row where "row = scheduleRow p r b m"
    have d: "toDouble b' = b'" by (simp add: b'_def)
    have le: "b' \<le> b"
      unfolding b'_def using Suc.prems(1) Suc.prems(2) [OF True] by (rule nextBalance_le)
    have next_ok: "toDouble (b' * r) < p" if "0 < b'"
    proof -
      have "b' * r \<le> b * r" using le assms(1) by (rule mult_right_mono)
      then have "toDouble (b' * r) \<le> toDouble (b * r)" by (rule toDouble_mono)
      with Suc.prems(2) [OF True] show ?thesis by simp
    qed
    have e: "endingBalance row = max b' 0"
      by (simp only: row_def b'_def endingBalance_scheduleRow)
    have s: "sorted_wrt (\<lambda>x y. y \<le> x) (c # map endingBalance (sched @ [row]))"
    proof -
      have "\<forall>v\<in>set (c # map endingBalance sched). endingBalance row \<le> v"
        using Suc.prems(4) le True e by (auto simp add: max_def)
      with Suc.prems(3) show ?thesis
        using sorted_wrt_snoc [of "\<lambda>x y. y \<le> x" "c # map endingBalance sched" "endingBalance row"]
        by simp
    qed
    have i: "\<forall>v\<in>set (c # map endingBalance (sched @ [row])). b' \<le> v \<and> 0 \<le> v"
      using Suc.prems(4) le e by (auto simp add: max_def)
    have u: "amortizationLoop p r b m sched = amortizationLoop p r b' (m + 1) (sched @ [row])"
      using True m by (simp only: amortizationLoop_step b'_def row_def)
    show ?thesis
      unfolding u by (rule Suc.hyps(1) [OF n d next_ok s i])
  qed
qed

lemma amortizationLoop_length: "length (amortizationLoop p r b m sched) \<le> length sched + (600 - m)"
proof (induction "600 - m" arbitrary: b m sched)
  case 0
  then show ?case by (simp add: amortizationLoop_stop)
next
  case (Suc n)
  show ?case
  proof (cases "0 < b")
    case False
    then show ?thesis by (simp add: amortizationLoop_stop)
  next
    case True
    from Suc.hyps(2) have m: "m < 600" and n: "n = 600 - (m + 1)" by simp_all
    have u: "amortizationLoop p r b m sched =
             amortizationLoop p r (nextBalance p r b) (m + 1) (sched @ [scheduleRow p r b m])"
      using True m by (simp only: amortizationLoop_step)
    have "length (amortizationLoop p r (nextBalance p r b) (m + 1) (sched @ [scheduleRow p r b m]))
            \<le> length (sched @ [scheduleRow p r b m]) + (600 - (m + 1))"
      by (rule Suc.hyps(1) [OF n])
    also have "\<dots> = length sched + (600 - m)" using m by simp
    finally show ?thesis by (simp only: u)
  qed
qed

lemma amortizationLoop_paid_off:
  assumes "b \<le> 0 \<Longrightarrow> sched \<noteq> [] \<and> endingBalance (last sched) = 0"
    and "length (amortizationLoop p r b m sched) < length sched + (600 - m)"
  shows "amortizationLoop p r b m sched \<noteq> []
         \<and> endingBalance (last (amortizationLoop p r b m sched)) = 0"
  using assms
proof (induction "600 - m" arbitrary: b m sched)
  case 0
  then show ?case by (simp add: amortizationLoop_stop)
next
  case (Suc n)
  show ?case
  proof (cases "0 < b")
    case False
    then have "amortizationLoop p r b m sched = sched" by (simp add: amortizationLoop_stop)
    with Suc.prems False show ?thesis by simp
  next
    case True
    from Suc.hyps(2) have m: "m < 600" and n: "n = 600 - (m + 1)" by simp_all
    define b' where "b' = nextBalance p r b"
    define row where "row = scheduleRow p r b m"
    have u: "amortizationLoop p r b m sched = amortizationLoop p r b' (m + 1) (sched @ [row])"
      using True m by (simp only: amortizationLoop_step b'_def row_def)
    have a: "b' \<le> 0 \<Longrightarrow> sched @ [row] \<noteq> [] \<and> endingBalance (last (sched @ [row])) = 0"
      by (simp add: row_def b'_def endingBalance_scheduleRow)
    have l: "length (amortizationLoop p r b' (m + 1) (sched @ [row]))
               < length (sched @ [row]) + (600 - (m + 1))"
      using Suc.prems(2) m by (simp add: u)
    show ?thesis
      unfolding u by (rule Suc.hyps(1) [OF n a l])
  qed
qed

lemma amortizationLoop_strict:
  assumes "toDouble b = b"
    and "0 < b \<Longrightarrow> last (c # map endingBalance sched) = b"
    and "\<forall>i<length sched.
           (c # map endingBalance sched) ! i / 2 ^ 52 \<le> rowPrincipal (sched ! i) \<longrightarrow>
           endingBalance (sched ! i) < (c # map endingBalance sched) ! i"
  shows "\<forall>i<length (amortizationLoop p r b m sched).
           (c # map endingBalance (amortizationLoop p r b m sched)) ! i / 2 ^ 52
              \<le> rowPrincipal (amortizationLoop p r b m sched ! i) \<longrightarrow>
           endingBalance (amortizationLoop p r b m sched ! i)
              < (c # map endingBalance (amortizationLoop p r b m sched)) ! i"
  using assms
proof (induction "600 - m" arbitrary: b m sched)
  case 0
  then have "amortizationLoop p r b m sched = sched" by (simp add: amortizationLoop_stop)
  with "0.prems" show ?case by simp
next
  case (Suc n)
  show ?case
  proof (cases "0 < b")
    case False
    then have "amortizationLoop p r b m sched = sched" by (simp add: amortizationLoop_stop)
    with Suc.prems show ?thesis by simp
  next
    case True
    from Suc.hyps(2) have m: "m < 600" and n: "n = 600 - (m + 1)" by simp_all
    define b' where "b' = nextBalance p r b"
    define row where "row = scheduleRow p r b m"
    have u: "amortizationLoop p r b m sched = amortizationLoop p r b' (m + 1) (sched @ [row])"
      using True m by (simp only: amortizationLoop_step b'_def row_def)
    have d: "toDouble b' = b'" by (simp add: b'_def)
    have e: "endingBalance row = max b' 0"
      by (simp only: row_def b'_def endingBalance_scheduleRow)
    have l: "last (c # map endingBalance (sched @ [row])) = b'" if "0 < b'"
      using that e by simp
    have prev: "(c # map endingBalance sched) ! length sched = b"
    proof -
      have "last (c # map endingBalance sched)
              = (c # map endingBalance sched) ! (length (c # map endingBalance sched) - 1)"
        by (rule last_conv_nth) simp
      with Suc.prems(2) [OF True] show ?thesis by simp
    qed
    have new: "endingBalance row < b" if "b / 2 ^ 52 \<le> rowPrincipal row"
    proof -
      have "b / 2 ^ 52 \<le> toDouble (p - toDouble (b * r))"
        using that by (simp add: row_def scheduleRow_def)
      with True Suc.prems(1) have "toDouble (b - toDouble (p - toDouble (b * r))) < b"
        by (intro toDouble_sub_less)
      then have "b' < b" by (simp only: b'_def nextBalance_def)
      with True e show ?thesis by simp
    qed
    have s: "\<forall>i<length (sched @ [row]).
           (c # map endingBalance (sched @ [row])) ! i / 2 ^ 52
              \<le> rowPrincipal ((sched @ [row]) ! i) \<longrightarrow>
           endingBalance ((sched @ [row]) ! i) < (c # map endingBalance (sched @ [row])) ! i"
    proof (intro allI impI)
      fix i
      assume i: "i < length (sched @ [row])"
        and h: "(c # map endingBalance (sched @ [row])) ! i / 2 ^ 52
                  \<le> rowPrincipal ((sched @ [row]) ! i)"
      have same: "(c # map endingBalance (sched @ [row])) ! i = (c # map endingBalance sched) ! i"
        using i nth_append [of "c # map endingBalance sched" "[endingBalance row]" i] by simp
      show "endingBalance ((sched @ [row]) ! i) < (c # map endingBalance (sched @ [row])) ! i"
      proof (cases "i < length sched")
        case True
        with h same Suc.prems(3) show ?thesis by (simp add: nth_append)
      next
        case False
        with i have "i = length sched" by simp
        with h same prev new show ?thesis by simp
      qed
    qed
    show ?thesis
      unfolding u by (rule Suc.hyps(1) [OF n d l s])
  qed
qed

text \<open>The interest of every row lies between 0 and the payment, and so does the
  principal; with the ending balances between 0 and the starting balance, no value of
  the loop is larger than its inputs.\<close>

lemma amortizationLoop_bounded:
  assumes "0 \<le> r" and "toDouble p = p"
    and "toDouble b = b"
    and "0 < b \<Longrightarrow> toDouble (b * r) < p"
    and "\<forall>row\<in>set sched. 0 \<le> rowInterest row \<and> rowInterest row < p
                          \<and> 0 \<le> rowPrincipal row \<and> rowPrincipal row \<le> p"
  shows "\<forall>row\<in>set (amortizationLoop p r b m sched).
           0 \<le> rowInterest row \<and> rowInterest row < p
           \<and> 0 \<le> rowPrincipal row \<and> rowPrincipal row \<le> p"
  using assms(3-)
proof (induction "600 - m" arbitrary: b m sched)
  case 0
  then have "amortizationLoop p r b m sched = sched" by (simp add: amortizationLoop_stop)
  with "0.prems" show ?case by simp
next
  case (Suc n)
  show ?case
  proof (cases "0 < b")
    case False
    then have "amortizationLoop p r b m sched = sched" by (simp add: amortizationLoop_stop)
    with Suc.prems show ?thesis by simp
  next
    case True
    from Suc.hyps(2) have m: "m < 600" and n: "n = 600 - (m + 1)" by simp_all
    define b' where "b' = nextBalance p r b"
    define row where "row = scheduleRow p r b m"
    have d: "toDouble b' = b'" by (simp add: b'_def)
    have lt: "toDouble (b * r) < p" using Suc.prems(2) [OF True] .
    have le: "b' \<le> b" unfolding b'_def using Suc.prems(1) lt by (rule nextBalance_le)
    have next_ok: "toDouble (b' * r) < p" if "0 < b'"
    proof -
      have "b' * r \<le> b * r" using le assms(1) by (rule mult_right_mono)
      then have "toDouble (b' * r) \<le> toDouble (b * r)" by (rule toDouble_mono)
      with lt show ?thesis by simp
    qed
    have i0: "0 \<le> toDouble (b * r)" using True assms(1) by (intro toDouble_nonneg) simp
    have p0: "0 \<le> toDouble (p - toDouble (b * r))" using lt by (intro toDouble_nonneg) simp
    have "toDouble (p - toDouble (b * r)) \<le> toDouble p" using i0 by (intro toDouble_mono) simp
    then have p1: "toDouble (p - toDouble (b * r)) \<le> p" by (simp only: assms(2))
    have rows: "\<forall>row\<in>set (sched @ [row]). 0 \<le> rowInterest row \<and> rowInterest row < p
                          \<and> 0 \<le> rowPrincipal row \<and> rowPrincipal row \<le> p"
      using Suc.prems(3) i0 lt p0 p1 by (simp add: row_def scheduleRow_def)
    have u: "amortizationLoop p r b m sched = amortizationLoop p r b' (m + 1) (sched @ [row])"
      using True m by (simp only: amortizationLoop_step b'_def row_def)
    show ?thesis
      unfolding u by (rule Suc.hyps(1) [OF n d next_ok rows])
  qed
qed

text \<open>The roundings met by the examples: 15 and 12 percent, 2000 with 25 a month, 1000
  with 10 and with 600 a month, 100000 with 1000.000000000005 and with 1001 a month.\<close>

lemma double_15: "monthlyRateOf 15 = 7205759403792793 / 576460752303423488"
proof -
  have "toDouble (15 / 100) = 5404319552844595 / 36028797018963968"
    by (subst toDouble_scaled [of 55]) (simp_all add: double_eval)
  moreover have "toDouble (5404319552844595 / 36028797018963968 / 12)
                   = 7205759403792793 / 576460752303423488"
    by (subst toDouble_scaled [of 59]) (simp_all add: double_eval)
  ultimately show ?thesis by (simp only: monthlyRateOf_def)
qed

lemma double_12: "monthlyRateOf 12 = 5764607523034235 / 576460752303423488"
proof -
  have "toDouble (12 / 100) = 1080863910568919 / 9007199254740992"
    by (subst toDouble_scaled [of 56]) (simp_all add: double_eval)
  moreover have "toDouble (1080863910568919 / 9007199254740992 / 12)
                   = 5764607523034235 / 576460752303423488"
    by (subst toDouble_scaled [of 59]) (simp_all add: double_eval)
  ultimately show ?thesis by (simp only: monthlyRateOf_def)
qed

lemma double_25: "toDouble 25 = 25"
  by (subst toDouble_scaled [of 48]) (simp_all add: double_eval)

lemma double_10: "toDouble 10 = 10"
  by (subst toDouble_scaled [of 49]) (simp_all add: double_eval)

lemma interest_2000_at_15:
  "toDouble (2000 * (7205759403792793 / 576460752303423488))
     = 7036874417766399 / 281474976710656"
  by (subst toDouble_scaled [of 48]) (simp_all add: double_eval)

lemma principal_2000_at_15:
  "toDouble (25 - 7036874417766399 / 281474976710656) = 1 / 281474976710656"
  by (subst toDouble_scaled [of 100]) (simp_all add: double_eval)

lemma balance_2000_at_15: "toDouble (2000 - 1 / 281474976710656) = 2000"
  by (subst toDouble_scaled [of 42]) (simp_all add: double_eval)

lemma interest_1000_at_12:
  "toDouble (1000 * (5764607523034235 / 576460752303423488)) = 10"
  by (subst toDouble_scaled [of 49]) (simp_all add: double_eval)

lemma double_600: "toDouble 600 = 600"
  by (subst toDouble_scaled [of 43]) (simp_all add: double_eval)

lemma double_1000: "toDouble 1000 = 1000"
  by (subst toDouble_scaled [of 43]) (simp_all add: double_eval)

lemma double_twelve: "toDouble 12 = 12"
  by (subst toDouble_scaled [of 49]) (simp_all add: double_eval)

lemma double_1001: "toDouble 1001 = 1001"
  by (subst toDouble_scaled [of 43]) (simp_all add: double_eval)

lemma double_100000: "toDouble 100000 = 100000"
  by (subst toDouble_scaled [of 36]) (simp_all add: double_eval)

lemma double_typed_payment:
  "toDouble (1000000000000005 / 1000000000000) = 2199023255552011 / 2199023255552"
  by (subst toDouble_scaled [of 43]) (simp_all add: double_eval)

lemma interest_100000_at_12:
  "toDouble (100000 * (5764607523034235 / 576460752303423488)) = 1000"
  by (subst toDouble_scaled [of 43]) (simp_all add: double_eval)

lemma principal_1000_at_12: "toDouble (600 - 10) = 590"
  by (subst toDouble_scaled [of 43]) (simp_all add: double_eval)

lemma first_step_1000:
  "nextBalance 600 (5764607523034235 / 576460752303423488) 1000 = 410"
proof -
  have "toDouble (1000 - 590) = 410"
    by (subst toDouble_scaled [of 44]) (simp_all add: double_eval)
  then show ?thesis
    by (simp only: nextBalance_def interest_1000_at_12 principal_1000_at_12)
qed

lemma interest_410_at_12:
  "toDouble (410 * (5764607523034235 / 576460752303423488))
     = 2308094809027379 / 562949953421312"
  by (subst toDouble_scaled [of 50]) (simp_all add: double_eval)

lemma principal_410_at_12:
  "toDouble (600 - 2308094809027379 / 562949953421312) = 5241591831933747 / 8796093022208"
  by (subst toDouble_scaled [of 43]) (simp_all add: double_eval)

lemma second_step_1000:
  "nextBalance 600 (5764607523034235 / 576460752303423488) 410
     = - (1635193692828467 / 8796093022208)"
proof -
  have "toDouble (410 - 5241591831933747 / 8796093022208)
          = - (1635193692828467 / 8796093022208)"
  proof -
    have "toDouble (5241591831933747 / 8796093022208 - 410) = 1635193692828467 / 8796093022208"
      by (subst toDouble_scaled [of 45]) (simp_all add: double_eval)
    moreover have "(410 :: rat) - 5241591831933747 / 8796093022208
                     = - (5241591831933747 / 8796093022208 - 410)" by simp
    ultimately show ?thesis by (simp only: toDouble_minus)
  qed
  then show ?thesis
    by (simp only: nextBalance_def interest_410_at_12 principal_410_at_12)
qed

lemma first_row_1000:
  "scheduleRow 600 (5764607523034235 / 576460752303423488) 1000 m =
     \<lparr>rowMonth = m, rowPayment = 600, rowPrincipal = 590, rowInterest = 10,
      endingBalance = 410\<rparr>"
  by (simp only: scheduleRow_def first_step_1000 interest_1000_at_12 principal_1000_at_12) simp

lemma second_row_1000:
  "scheduleRow 600 (5764607523034235 / 576460752303423488) 410 m =
     \<lparr>rowMonth = m, rowPayment = 600, rowPrincipal = 5241591831933747 / 8796093022208,
      rowInterest = 2308094809027379 / 562949953421312, endingBalance = 0\<rparr>"
  by (simp only: scheduleRow_def second_step_1000 interest_410_at_12 principal_410_at_12) simp

lemma schedule_1000_at_12:
  "amortizationSchedule (handleCalculateProjections (Some 600) 12 1000 idleProjection) =
     [\<lparr>rowMonth = 1, rowPayment = 600, rowPrincipal = 590, rowInterest = 10,
       endingBalance = 410\<rparr>,
      \<lparr>rowMonth = 2, rowPayment = 600, rowPrincipal = 5241591831933747 / 8796093022208,
       rowInterest = 2308094809027379 / 562949953421312, endingBalance = 0\<rparr>]"
proof -
  let ?r = "5764607523034235 / 576460752303423488 :: rat"
  have "amortizationLoop 600 ?r 1000 1 []
          = amortizationLoop 600 ?r 410 (1 + 1) ([] @ [scheduleRow 600 ?r 1000 1])"
  proof -
    have "amortizationLoop 600 ?r 1000 1 []
          = amortizationLoop 600 ?r (nextBalance 600 ?r 1000) (1 + 1)
              ([] @ [scheduleRow 600 ?r 1000 1])"
      by (rule amortizationLoop_step) simp_all
    then show ?thesis by (simp only: first_step_1000)
  qed
  also have "\<dots> = amortizationLoop 600 ?r (- (1635193692828467 / 8796093022208)) (1 + 1 + 1)
                     (([] @ [scheduleRow 600 ?r 1000 1]) @ [scheduleRow 600 ?r 410 (1 + 1)])"
  proof -
    have "amortizationLoop 600 ?r 410 (1 + 1) ([] @ [scheduleRow 600 ?r 1000 1])
          = amortizationLoop 600 ?r (nextBalance 600 ?r 410) (1 + 1 + 1)
              (([] @ [scheduleRow 600 ?r 1000 1]) @ [scheduleRow 600 ?r 410 (1 + 1)])"
      by (rule amortizationLoop_step) simp_all
    then show ?thesis by (simp only: second_step_1000)
  qed
  also have "\<dots> = ([] @ [scheduleRow 600 ?r 1000 1]) @ [scheduleRow 600 ?r 410 (1 + 1)]"
    by (rule amortizationLoop_stop) simp
  finally have "amortizationLoop 600 ?r 1000 1 []
                  = [scheduleRow 600 ?r 1000 1, scheduleRow 600 ?r 410 (1 + 1)]" by simp
  then have "amortizationLoop 600 ?r 1000 1 [] =
     [\<lparr>rowMonth = 1, rowPayment = 600, rowPrincipal = 590, rowInterest = 10,
       endingBalance = 410\<rparr>,
      \<lparr>rowMonth = 2, rowPayment = 600, rowPrincipal = 5241591831933747 / 8796093022208,
       rowInterest = 2308094809027379 / 562949953421312, endingBalance = 0\<rparr>]"
    by (simp only: first_row_1000 second_row_1000) simp
  moreover have "handleCalculateProjections (Some 600) 12 1000 idleProjection
          = idleProjection\<lparr>amortizationSchedule := amortizationLoop 600 ?r 1000 1 []\<rparr>"
    by (simp only: handleCalculateProjections_Some double_12 double_600 interest_1000_at_12)
      simp
  ultimately show ?thesis by simp
qed

lemma finiteDouble_1000: "finiteDouble 1000"
  by (simp add: finiteDouble_def double_1000 maxDouble_def)

lemma finiteDouble_12: "finiteDouble 12"
  by (simp add: finiteDouble_def double_twelve maxDouble_def)

lemma finiteDouble_600: "finiteDouble 600"
  by (simp add: finiteDouble_def double_600 maxDouble_def)

lemma stuck_2000: "nextBalance 25 (7205759403792793 / 576460752303423488) 2000 = 2000"
  by (simp only: nextBalance_def interest_2000_at_15 principal_2000_at_15 balance_2000_at_15)

lemma row_2000:
  "scheduleRow 25 (7205759403792793 / 576460752303423488) 2000 =
     (\<lambda>m. \<lparr>rowMonth = m, rowPayment = 25, rowPrincipal = 1 / 281474976710656,
           rowInterest = 7036874417766399 / 281474976710656, endingBalance = 2000\<rparr>)"
  by (rule ext)
    (simp only: scheduleRow_def stuck_2000 interest_2000_at_15 principal_2000_at_15, simp)

lemma schedule_2000_at_15:
  "handleCalculateProjections (Some 25) 15 2000 idleProjection
     = idleProjection\<lparr>amortizationSchedule :=
         map (scheduleRow 25 (7205759403792793 / 576460752303423488) 2000) [1..<600]\<rparr>"
proof -
  have "amortizationLoop 25 (7205759403792793 / 576460752303423488) 2000 1 []
          = [] @ map (scheduleRow 25 (7205759403792793 / 576460752303423488) 2000) [1..<600]"
    by (rule amortizationLoop_stuck [OF _ stuck_2000]) simp
  then show ?thesis
    by (simp only: handleCalculateProjections_Some double_15 double_25 interest_2000_at_15)
      simp
qed

lemma stuck_100000:
  "nextBalance (2199023255552011 / 2199023255552) (5764607523034235 / 576460752303423488) 100000
     = 100000"
proof -
  have "toDouble (2199023255552011 / 2199023255552 - 1000) = 11 / 2199023255552"
    by (subst toDouble_scaled [of 90]) (simp_all add: double_eval)
  moreover have "toDouble (100000 - 11 / 2199023255552) = 100000"
    by (subst toDouble_scaled [of 36]) (simp_all add: double_eval)
  ultimately show ?thesis by (simp only: nextBalance_def interest_100000_at_12)
qed

text \<open>The cap at work: 100000 at 12 percent with 1001 a month. Each turn the balance
  loses at most \<open>1002 - balance / 100\<close>, rounding errors included, so after \<open>k\<close> turns
  it is at least \<open>100200 - 200 * (101 / 100) ^ k\<close>.\<close>

lemma growth_10: "((101::rat) / 100) ^ 10 < 1105 / 1000"
  by (simp add: power_divide)

lemma growth_100: "((101::rat) / 100) ^ 100 < 272 / 100"
proof -
  have "((101::rat) / 100) ^ 100 = (((101::rat) / 100) ^ 10) ^ 10"
    by (simp only: power_mult [symmetric]) simp
  also have "\<dots> < ((1105::rat) / 1000) ^ 10"
    by (rule power_strict_mono [OF growth_10]) simp_all
  also have "\<dots> < 272 / 100" by (simp add: power_divide)
  finally show ?thesis .
qed

lemma growth_600: "((101::rat) / 100) ^ 600 < 405"
proof -
  have "((101::rat) / 100) ^ 600 = (((101::rat) / 100) ^ 100) ^ 6"
    by (simp only: power_mult [symmetric]) simp
  also have "\<dots> < ((272::rat) / 100) ^ 6"
    by (rule power_strict_mono [OF growth_100]) simp_all
  also have "\<dots> < 405" by (simp add: power_divide)
  finally show ?thesis .
qed

lemma growth_upto:
  assumes "k \<le> 600"
  shows "((101::rat) / 100) ^ k < 405"
proof -
  have "((101::rat) / 100) ^ k \<le> (101 / 100) ^ 600"
    using assms by (intro power_increasing) simp_all
  from this growth_600 show ?thesis by (rule le_less_trans)
qed

lemma slow_loan_positive:
  assumes "k \<le> 600"
  shows "(0::rat) < 100200 - 200 * (101 / 100) ^ k"
  using growth_upto [OF assms] by simp

lemma slow_loan_bound:
  "101 / 100 * (100200 - 200 * (101 / 100) ^ k) - 1002 = (100200 - 200 * (101 / 100) ^ Suc k :: rat)"
  by (simp add: algebra_simps)

lemma slow_loan_step:
  assumes "0 < b" and "b \<le> 100000"
  shows "nextBalance 1001 (5764607523034235 / 576460752303423488) b \<le> 100000"
    and "101 / 100 * b - 1002 \<le> nextBalance 1001 (5764607523034235 / 576460752303423488) b"
proof -
  define t where "t = b * (5764607523034235 / 576460752303423488)"
  define i where "i = toDouble t"
  define pr where "pr = toDouble (1001 - i)"
  define b' where "b' = toDouble (b - pr)"
  have nb: "nextBalance 1001 (5764607523034235 / 576460752303423488) b = b'"
    by (simp only: nextBalance_def b'_def pr_def i_def t_def)
  have t_lo: "b / 100 \<le> t" and t_hi: "t \<le> 100000 * (5764607523034235 / 576460752303423488)"
    using assms by (simp_all add: t_def)
  have t0: "0 \<le> t" using t_lo assms(1) by simp
  have i_hi: "i \<le> 1000"
    using toDouble_mono [OF t_hi] by (simp only: i_def interest_100000_at_12)
  have i0: "0 \<le> i" unfolding i_def using t0 by (rule toDouble_nonneg)
  have "\<bar>t\<bar> < 1024" using t0 t_hi by simp
  then have "\<bar>t\<bar> * 2 ^ 43 < 2 ^ 53" by simp
  then have "\<bar>i - t\<bar> \<le> 1 / 2 ^ (43 + 1)"
    unfolding i_def by (intro toDouble_abs_err) simp_all
  then have i_err: "\<bar>i - t\<bar> \<le> 1 / 17592186044416" by simp
  have "\<bar>1001 - i\<bar> < 1024" using i0 i_hi by linarith
  then have "\<bar>1001 - i\<bar> * 2 ^ 43 < 2 ^ 53" by simp
  then have "\<bar>pr - (1001 - i)\<bar> \<le> 1 / 2 ^ (43 + 1)"
    unfolding pr_def by (intro toDouble_abs_err) simp_all
  then have pr_err: "\<bar>pr - (1001 - i)\<bar> \<le> 1 / 17592186044416" by simp
  have pr0: "0 \<le> pr" unfolding pr_def using i_hi by (intro toDouble_nonneg) simp
  have pr_hi: "pr \<le> 1002" using pr_err i0 by linarith
  have "\<bar>b - pr\<bar> < 131072" using assms pr0 pr_hi by linarith
  then have "\<bar>b - pr\<bar> * 2 ^ 36 < 2 ^ 53" by simp
  then have "\<bar>b' - (b - pr)\<bar> \<le> 1 / 2 ^ (36 + 1)"
    unfolding b'_def by (intro toDouble_abs_err) simp_all
  then have b_err: "\<bar>b' - (b - pr)\<bar> \<le> 1 / 137438953472" by simp
  have "b - pr \<le> 100000" using assms(2) pr0 by simp
  then have "b' \<le> toDouble 100000" unfolding b'_def by (rule toDouble_mono)
  then show "nextBalance 1001 (5764607523034235 / 576460752303423488) b \<le> 100000"
    by (simp only: nb double_100000)
  have "101 / 100 * b - 1002 \<le> b'"
    using t_lo i_err pr_err b_err by linarith
  then show "101 / 100 * b - 1002 \<le> nextBalance 1001 (5764607523034235 / 576460752303423488) b"
    by (simp only: nb)
qed

lemma slow_loan_rows:
  assumes "600 - m = Suc n" and "k + Suc n \<le> 600"
    and "100200 - 200 * (101 / 100) ^ k \<le> b" and "b \<le> 100000"
  shows "length (amortizationLoop 1001 (5764607523034235 / 576460752303423488) b m sched)
           = length sched + Suc n
       \<and> rowMonth (last (amortizationLoop 1001 (5764607523034235 / 576460752303423488)
                           b m sched)) = 599
       \<and> 0 < endingBalance (last (amortizationLoop 1001 (5764607523034235 / 576460752303423488)
                           b m sched))"
  using assms
proof (induction n arbitrary: m k sched b)
  case 0
  let ?r = "5764607523034235 / 576460752303423488 :: rat"
  from 0 have m: "m = 599" by simp
  from 0 have k: "k \<le> 600" "Suc k \<le> 600" by simp_all
  have b0: "0 < b" using slow_loan_positive [OF k(1)] "0.prems"(3) by simp
  have "101 / 100 * (100200 - 200 * (101 / 100) ^ k) - 1002 \<le> 101 / 100 * b - 1002"
    using "0.prems"(3) by simp
  also have "\<dots> \<le> nextBalance 1001 ?r b" using b0 "0.prems"(4) by (rule slow_loan_step(2))
  finally have "100200 - 200 * (101 / 100) ^ Suc k \<le> nextBalance 1001 ?r b"
    by (simp only: slow_loan_bound)
  with slow_loan_positive [OF k(2)] have pos: "0 < nextBalance 1001 ?r b" by simp
  have "amortizationLoop 1001 ?r b m sched
        = amortizationLoop 1001 ?r (nextBalance 1001 ?r b) (m + 1) (sched @ [scheduleRow 1001 ?r b m])"
    using b0 m by (intro amortizationLoop_step) simp_all
  also have "\<dots> = sched @ [scheduleRow 1001 ?r b m]"
    using m by (intro amortizationLoop_stop) simp
  finally show ?case using pos m by (simp add: scheduleRow_def)
next
  case (Suc n)
  let ?r = "5764607523034235 / 576460752303423488 :: rat"
  from Suc.prems have m: "m < 600" and n: "600 - (m + 1) = Suc n"
    and k: "k \<le> 600" "Suc k \<le> 600" and kn: "Suc k + Suc n \<le> 600" by simp_all
  have b0: "0 < b" using slow_loan_positive [OF k(1)] Suc.prems(3) by simp
  have "101 / 100 * (100200 - 200 * (101 / 100) ^ k) - 1002 \<le> 101 / 100 * b - 1002"
    using Suc.prems(3) by simp
  also have "\<dots> \<le> nextBalance 1001 ?r b" using b0 Suc.prems(4) by (rule slow_loan_step(2))
  finally have lo: "100200 - 200 * (101 / 100) ^ Suc k \<le> nextBalance 1001 ?r b"
    by (simp only: slow_loan_bound)
  have hi: "nextBalance 1001 ?r b \<le> 100000" using b0 Suc.prems(4) by (rule slow_loan_step(1))
  have u: "amortizationLoop 1001 ?r b m sched
        = amortizationLoop 1001 ?r (nextBalance 1001 ?r b) (m + 1) (sched @ [scheduleRow 1001 ?r b m])"
    using b0 m by (intro amortizationLoop_step) simp_all
  from Suc.IH [OF n kn lo hi, of "sched @ [scheduleRow 1001 ?r b m]"] show ?case
    unfolding u by simp
qed

subsection \<open>The amortization projection\<close>

text \<open>
  C6. The handler rejects an empty payment field and a payment of 0 with the
  \<^verbatim>\<open>InvalidPayment\<close> notification, and scenario D (1000 at 12 percent, payment 10) with
  the \<^verbatim>\<open>PaymentTooSmall\<close> notification and an empty schedule. Its second check is
  computed in doubles, and there it misses a payment that equals the interest: for a
  balance of 2000 at 15 percent the monthly interest \<open>2000 * (15 / 100 / 12)\<close> is exactly
  25, but the code rounds \<^verbatim>\<open>15 / 100\<close>, the division by 12 and the product and obtains
  24.999999999999996 (\<open>7036874417766399 / 2\<^sup>4\<^sup>8\<close>). A payment of 25 passes
  \<^verbatim>\<open>monthlyPayment <= balance * monthlyRate\<close>, no notification is set, and the schedule
  has 599 rows whose interest is that number and whose ending balance is 2000: the
  principal of \<open>2\<^sup>-\<^sup>4\<^sup>8\<close> is lost when it is subtracted from 2000.
\<close>

theorem payment_equal_to_interest_accepted:
  "(25 :: rat) \<le> 2000 * (15 / 100 / 12)
   \<and> notificationState (handleCalculateProjections (Some 25) 15 2000 idleProjection) = None
   \<and> map rowInterest
        (amortizationSchedule (handleCalculateProjections (Some 25) 15 2000 idleProjection))
       = replicate 599 (7036874417766399 / 281474976710656)
   \<and> map endingBalance
        (amortizationSchedule (handleCalculateProjections (Some 25) 15 2000 idleProjection))
       = replicate 599 2000
   \<and> handleCalculateProjections (Some 10) 12 1000 idleProjection
       = idleProjection\<lparr>notificationState := Some PaymentTooSmall, amortizationSchedule := []\<rparr>
   \<and> handleCalculateProjections (Some 0) 15 2000 idleProjection
       = idleProjection\<lparr>notificationState := Some InvalidPayment\<rparr>
   \<and> handleCalculateProjections None 15 2000 idleProjection
       = idleProjection\<lparr>notificationState := Some InvalidPayment\<rparr>"
proof -
  have "handleCalculateProjections (Some 10) 12 1000 idleProjection
       = idleProjection\<lparr>notificationState := Some PaymentTooSmall, amortizationSchedule := []\<rparr>"
    by (simp only: handleCalculateProjections_Some double_12 double_10 interest_1000_at_12) simp
  moreover have "handleCalculateProjections (Some 0) 15 2000 idleProjection
       = idleProjection\<lparr>notificationState := Some InvalidPayment\<rparr>"
    by (simp add: handleCalculateProjections_Some)
  moreover have "handleCalculateProjections None 15 2000 idleProjection
       = idleProjection\<lparr>notificationState := Some InvalidPayment\<rparr>"
    by (simp add: handleCalculateProjections_def)
  moreover have "notificationState (handleCalculateProjections (Some 25) 15 2000 idleProjection)
                   = None
     \<and> map rowInterest
          (amortizationSchedule (handleCalculateProjections (Some 25) 15 2000 idleProjection))
         = replicate 599 (7036874417766399 / 281474976710656)
     \<and> map endingBalance
          (amortizationSchedule (handleCalculateProjections (Some 25) 15 2000 idleProjection))
         = replicate 599 2000"
    unfolding schedule_2000_at_15 row_2000
    by (simp add: idleProjection_def map_replicate_const comp_def)
  ultimately show ?thesis by simp
qed

text \<open>
  C7 (amended). Let the starting balance be a positive finite double, the rate a finite
  double that is not negative, and let the typed payment round to a finite double that
  passes both checks of the handler as it computes them: it is positive and greater
  than the rounded product of the balance and \<open>monthlyRateOf rate\<close>. Then the ending
  balances of the schedule, with the starting balance in front, never increase from one
  row to the next and are never negative; the ending balance of a row is strictly below
  the balance before it whenever the principal of the row is at least \<open>2\<^sup>-\<^sup>5\<^sup>2\<close> times
  that balance (a smaller principal can be lost to rounding); and a schedule that stops
  before the cap of the loop ends with the balance 0.
\<close>

theorem schedule_never_increases:
  assumes "0 < balance" and "finiteDouble balance"
    and "0 \<le> rate" and "finiteDouble rate"
    and "0 < toDouble p" and "finiteDouble (toDouble p)"
    and "toDouble (balance * monthlyRateOf rate) < toDouble p"
  shows "sorted_wrt (\<lambda>x y. y \<le> x)
           (balance # map endingBalance
              (amortizationSchedule (handleCalculateProjections (Some p) rate balance st)))
         \<and> (\<forall>row \<in> set (amortizationSchedule
                            (handleCalculateProjections (Some p) rate balance st)).
               0 \<le> endingBalance row)
         \<and> (\<forall>i < length (amortizationSchedule
                            (handleCalculateProjections (Some p) rate balance st)).
               (balance # map endingBalance
                  (amortizationSchedule (handleCalculateProjections (Some p) rate balance st))) ! i
                 / 2 ^ 52
                 \<le> rowPrincipal
                     (amortizationSchedule (handleCalculateProjections (Some p) rate balance st) ! i)
               \<longrightarrow>
               endingBalance
                 (amortizationSchedule (handleCalculateProjections (Some p) rate balance st) ! i)
                 < (balance # map endingBalance
                     (amortizationSchedule
                        (handleCalculateProjections (Some p) rate balance st))) ! i)
         \<and> (length (amortizationSchedule
                      (handleCalculateProjections (Some p) rate balance st)) < 599 \<longrightarrow>
               endingBalance (last (amortizationSchedule
                      (handleCalculateProjections (Some p) rate balance st))) = 0)"
proof -
  let ?r = "monthlyRateOf rate"
  let ?p = "toDouble p"
  have r0: "0 \<le> ?r"
    unfolding monthlyRateOf_def using assms(3) by (intro toDouble_nonneg divide_nonneg_nonneg) simp_all
  have b: "toDouble balance = balance" using assms(2) by (simp add: finiteDouble_def)
  have s: "amortizationSchedule (handleCalculateProjections (Some p) rate balance st)
        = amortizationLoop ?p ?r balance 1 []"
    using assms(5,7) by (simp add: handleCalculateProjections_Some)
  have d: "sorted_wrt (\<lambda>x y. y \<le> x) (balance # map endingBalance (amortizationLoop ?p ?r balance 1 []))
         \<and> (\<forall>v\<in>set (balance # map endingBalance (amortizationLoop ?p ?r balance 1 [])). 0 \<le> v)"
    using assms(1,7) r0 b by (intro amortizationLoop_nonincreasing) simp_all
  have t: "\<forall>i<length (amortizationLoop ?p ?r balance 1 []).
           (balance # map endingBalance (amortizationLoop ?p ?r balance 1 [])) ! i / 2 ^ 52
              \<le> rowPrincipal (amortizationLoop ?p ?r balance 1 [] ! i) \<longrightarrow>
           endingBalance (amortizationLoop ?p ?r balance 1 [] ! i)
              < (balance # map endingBalance (amortizationLoop ?p ?r balance 1 [])) ! i"
    using b by (intro amortizationLoop_strict) simp_all
  have z: "endingBalance (last (amortizationLoop ?p ?r balance 1 [])) = 0"
    if "length (amortizationLoop ?p ?r balance 1 []) < 599"
    using amortizationLoop_paid_off [of balance "[]" ?p ?r 1] assms(1) that by simp
  from d t z show ?thesis unfolding s by simp
qed

text \<open>C7 (amended) for 1000 at 12 percent with 600 a month: the schedule has two rows,
  the ending balances are 410 and 0; the principal of the first row, 590, is more than
  \<open>2\<^sup>-\<^sup>5\<^sup>2\<close> times 1000, and its ending balance is below 1000.\<close>

theorem schedule_never_increases_witness:
  "(0 :: rat) < 1000 \<and> finiteDouble 1000 \<and> (0 :: rat) \<le> 12 \<and> finiteDouble 12
   \<and> 0 < toDouble 600 \<and> finiteDouble (toDouble 600)
   \<and> toDouble (1000 * monthlyRateOf 12) < toDouble 600
   \<and> sorted_wrt (\<lambda>x y. y \<le> x)
        (1000 # map endingBalance
           (amortizationSchedule (handleCalculateProjections (Some 600) 12 1000 idleProjection)))
   \<and> map endingBalance
        (amortizationSchedule (handleCalculateProjections (Some 600) 12 1000 idleProjection))
       = [410, 0]
   \<and> (1000 :: rat) / 2 ^ 52
        \<le> rowPrincipal
            (amortizationSchedule (handleCalculateProjections (Some 600) 12 1000 idleProjection)
             ! 0)
   \<and> endingBalance
        (amortizationSchedule (handleCalculateProjections (Some 600) 12 1000 idleProjection) ! 0)
       < 1000
   \<and> length (amortizationSchedule
                (handleCalculateProjections (Some 600) 12 1000 idleProjection)) < 599
   \<and> endingBalance (last (amortizationSchedule
                (handleCalculateProjections (Some 600) 12 1000 idleProjection))) = 0"
proof -
  have i: "toDouble (1000 * monthlyRateOf 12) = 10"
    by (simp only: double_12 interest_1000_at_12)
  have h: "(0 :: rat) < 1000 \<and> finiteDouble 1000 \<and> (0 :: rat) \<le> 12 \<and> finiteDouble 12
      \<and> 0 < toDouble 600 \<and> finiteDouble (toDouble 600)
      \<and> toDouble (1000 * monthlyRateOf 12) < toDouble 600"
    by (simp add: finiteDouble_1000 finiteDouble_12 finiteDouble_600 double_600 i)
  with schedule_never_increases [of 1000 12 600 idleProjection] schedule_1000_at_12
  show ?thesis by simp
qed

text \<open>C7 as it is written fails on the code. For 100000 at 12 percent the interest of
  the first month is 1000; the typed payment 1000.000000000005 is greater and passes
  both checks, its double exceeds 1000 by \<open>11 / 2\<^sup>4\<^sup>1\<close>, and that principal is lost when
  it is subtracted from 100000: all 599 ending balances are 100000.\<close>

theorem absorbed_principal_counterexample:
  "(0 :: rat) < 100000
   \<and> (100000 :: rat) * (12 / 100 / 12) < 1000000000000005 / 1000000000000
   \<and> map endingBalance
        (amortizationSchedule
           (handleCalculateProjections (Some (1000000000000005 / 1000000000000)) 12 100000
              idleProjection))
       = replicate 599 100000"
proof -
  let ?p = "2199023255552011 / 2199023255552 :: rat"
  let ?r = "5764607523034235 / 576460752303423488 :: rat"
  have "amortizationLoop ?p ?r 100000 1 [] = [] @ map (scheduleRow ?p ?r 100000) [1..<600]"
    by (rule amortizationLoop_stuck [OF _ stuck_100000]) simp
  then have "handleCalculateProjections (Some (1000000000000005 / 1000000000000)) 12 100000
               idleProjection
             = idleProjection\<lparr>amortizationSchedule := map (scheduleRow ?p ?r 100000) [1..<600]\<rparr>"
    by (simp only: handleCalculateProjections_Some double_12 double_typed_payment
        interest_100000_at_12) simp
  moreover have "map endingBalance (map (scheduleRow ?p ?r 100000) [1..<600])
                   = replicate 599 100000"
    by (simp add: comp_def endingBalance_scheduleRow stuck_100000 map_replicate_const)
  ultimately show ?thesis by simp
qed

text \<open>
  C8. The loop counts \<^verbatim>\<open>month\<close> from 1 and runs while \<^verbatim>\<open>month < 600\<close>: it stops after
  599 rows, not 600. For 100000 at 12 percent with 1001 a month the loan is not paid off
  within 50 years; the schedule has 599 rows, the last one is month 599 and still owes a
  positive balance.
\<close>

theorem cap_after_599_rows:
  "length (amortizationSchedule
             (handleCalculateProjections (Some 1001) 12 100000 idleProjection)) = 599
   \<and> rowMonth (last (amortizationSchedule
             (handleCalculateProjections (Some 1001) 12 100000 idleProjection))) = 599
   \<and> 0 < endingBalance (last (amortizationSchedule
             (handleCalculateProjections (Some 1001) 12 100000 idleProjection)))"
proof -
  have s: "amortizationSchedule (handleCalculateProjections (Some 1001) 12 100000 idleProjection)
        = amortizationLoop 1001 (5764607523034235 / 576460752303423488) 100000 1 []"
    by (simp only: handleCalculateProjections_Some double_12 double_1001 interest_100000_at_12)
      (simp add: idleProjection_def)
  have a: "600 - (1::nat) = Suc 598" and b: "0 + Suc 598 \<le> (600::nat)"
    and c: "100200 - 200 * (101 / 100) ^ 0 \<le> (100000::rat)" and d: "(100000::rat) \<le> 100000"
    by simp_all
  from slow_loan_rows [OF a b c d, of "[]"] show ?thesis
    unfolding s by simp
qed

subsection \<open>Facts about the calendar and the interest loop\<close>

lemma daysInMonth_bounds: "28 \<le> daysInMonth y m \<and> daysInMonth y m \<le> 31"
  by (simp add: daysInMonth_def)

lemma getTime_startOfMonth:
  "getTime (startOfMonth y m) = ((y * 12 + int m) * 32 + 1) * 86400000"
  by (simp add: getTime_def startOfMonth_def)

lemma getTime_endOfMonth:
  "getTime (endOfMonth y m) = ((y * 12 + int m) * 32 + int (daysInMonth y m)) * 86400000"
  by (simp add: getTime_def endOfMonth_def)

lemma getTime_monthIndex:
  "getTime d = (monthIndex d * 32 + int (getDate d)) * 86400000 + int (msOfDay d)"
  by (simp add: getTime_def monthIndex_def)

lemma monthIndex_setMonthNext: "monthIndex d + 1 \<le> monthIndex (setMonthNext d)"
proof -
  let ?i = "getFullYear d * 12 + int (getMonth d)"
  have "(?i + 1) div 12 * 12 + int (nat ((?i + 1) mod 12)) = ?i + 1" by simp
  moreover have "(?i + 1 + 1) div 12 * 12 + int (nat ((?i + 1 + 1) mod 12)) = ?i + 2" by simp
  ultimately show ?thesis
    by (simp add: setMonthNext_def Let_def monthIndex_def)
qed

lemma setMonthNext_short:
  assumes "getDate d \<le> 28"
  shows "setMonthNext d =
     \<lparr>getFullYear = (monthIndex d + 1) div 12, getMonth = nat ((monthIndex d + 1) mod 12),
      getDate = getDate d, msOfDay = msOfDay d\<rparr>"
  using assms daysInMonth_bounds [of "(monthIndex d + 1) div 12" "nat ((monthIndex d + 1) mod 12)"]
  by (simp add: setMonthNext_def Let_def monthIndex_def)

lemma end_before_start:
  assumes "y * 12 + int m < y' * 12 + int m'"
  shows "getTime (endOfMonth y m) < getTime (startOfMonth y' m')"
proof -
  define i j where "i = y * 12 + int m" and "j = y' * 12 + int m'"
  have "int (daysInMonth y m) \<le> 31" using daysInMonth_bounds [of y m] by simp
  moreover from assms have "i + 1 \<le> j" by (simp add: i_def j_def)
  ultimately have "i * 32 + int (daysInMonth y m) < j * 32 + 1" by linarith
  then show ?thesis by (simp add: getTime_startOfMonth getTime_endOfMonth i_def j_def)
qed

lemma start_mono:
  assumes "y * 12 + int m \<le> y' * 12 + int m'"
  shows "getTime (startOfMonth y m) \<le> getTime (startOfMonth y' m')"
  using assms by (simp add: getTime_startOfMonth)

lemma interestLoop_stop:
  assumes "\<not> getTime (endOfMonth (getFullYear it) (getMonth it)) < getTime today"
  shows "interestLoop rate today it dyn docs = docs"
  using assms by (subst interestLoop.simps) (simp only: if_False)

lemma interestLoop_step:
  assumes "getTime (endOfMonth (getFullYear it) (getMonth it)) < getTime today"
  shows "interestLoop rate today it dyn docs =
         interestLoop rate today (setMonthNext it)
           (fst (monthBody rate it dyn docs)) (snd (monthBody rate it dyn docs))"
  using assms by (subst interestLoop.simps) (simp only: if_True)

lemma reduce_rows:
  "\<forall>t\<in>set rows. rowAmount t \<noteq> NaN \<Longrightarrow>
   foldl reduceStep (Num a) rows = Num (a + sum_list (map rowValue rows))"
proof (induction rows arbitrary: a)
  case Nil
  then show ?case by simp
next
  case (Cons t rows)
  then obtain x where x: "rowAmount t = Num x" by (cases "rowAmount t") auto
  from Cons.prems have "\<forall>t\<in>set rows. rowAmount t \<noteq> NaN" by simp
  from Cons.IH [OF this] x show ?case
    by (simp add: reduceStep_def rowValue_def)
qed

lemma balanceBefore_sum:
  assumes "\<forall>t\<in>set dyn. rowAmount t \<noteq> NaN"
  shows "balanceBefore dyn start =
         Num (sum_list (map rowValue (filter (\<lambda>t. getTime (rowDate t) < getTime start) dyn)))"
  using assms by (simp add: balanceBefore_def reduce_rows)

lemma sum_filter_mset:
  fixes f :: "'a \<Rightarrow> rat"
  shows "sum_list (map f (filter P xs)) = sum_mset (image_mset f (filter_mset P (mset xs)))"
  by (metis mset_filter mset_map sum_mset_sum_list)

lemma monthBody_cases:
  "monthBody (Num r) it dyn docs = (dyn, docs)
   \<or> (\<exists>b. balanceBefore dyn (startOfMonth (getFullYear it) (getMonth it)) = Num b
          \<and> 0 < b \<and> 0 < r
          \<and> monthBody (Num r) it dyn docs =
              (sort_key (\<lambda>t. getTime (rowDate t))
                 (dyn @ [docRow (interestDoc (b * (r / 100 / 12))
                                   (endOfMonth (getFullYear it) (getMonth it)))]),
               docs @ [interestDoc (b * (r / 100 / 12))
                         (endOfMonth (getFullYear it) (getMonth it))]))"
  by (cases "balanceBefore dyn (startOfMonth (getFullYear it) (getMonth it))")
     (simp_all add: monthBody_def Let_def docRow_def interestDoc_def)

lemma accruedCompounding_snoc:
  "accruedCompounding basis mr a (ds @ [d]) \<longleftrightarrow>
     accruedCompounding basis mr a ds
     \<and> docAmount d = (basis (monthStartOf d) + (a + sum_list (map docAmount ds))) * mr"
  by (induction ds arbitrary: a) (simp_all add: add.assoc)

lemma sum_rows_split:
  fixes f :: "'a \<Rightarrow> rat"
  assumes "mset dyn = mset B + mset C"
  shows "sum_list (map f (filter P dyn)) =
         sum_list (map f (filter P B)) + sum_list (map f (filter P C))"
  by (simp add: sum_filter_mset assms)

lemma docRows_sum:
  "\<forall>d\<in>set docs. getTime (docDate d) < c \<Longrightarrow>
   sum_list (map rowValue (filter (\<lambda>t. getTime (rowDate t) < c) (map docRow docs))) =
   sum_list (map docAmount docs)"
  by (induction docs) (simp_all add: docRow_def rowValue_def)

lemma endOfMonth_fields [simp]:
  "getFullYear (endOfMonth y m) = y" "getMonth (endOfMonth y m) = m"
  by (simp_all add: endOfMonth_def)

lemma interestDoc_fields [simp]:
  "docAmount (interestDoc x e) = x" "docDate (interestDoc x e) = e"
  "docType (interestDoc x e) = interest"
  by (simp_all add: interestDoc_def)

lemma interestLoop_compounding:
  assumes "rate = Num r"
    and "mset dyn = mset B + mset (map docRow docs)"
    and "\<forall>t\<in>set B. rowAmount t \<noteq> NaN"
    and "\<forall>d\<in>set docs. getTime (docDate d)
            < getTime (startOfMonth (getFullYear it) (getMonth it))"
    and "accruedCompounding basis (r / 100 / 12) 0 docs"
    and "\<And>y m. basis (startOfMonth y m) =
            sum_list (map rowValue
              (filter (\<lambda>t. getTime (rowDate t) < getTime (startOfMonth y m)) B))"
  shows "accruedCompounding basis (r / 100 / 12) 0 (interestLoop rate today it dyn docs)"
  using assms
proof (induction rate today it dyn docs rule: interestLoop.induct)
  case (1 rate today it dyn docs)
  let ?som = "startOfMonth (getFullYear it) (getMonth it)"
  let ?eom = "endOfMonth (getFullYear it) (getMonth it)"
  let ?next = "setMonthNext it"
  let ?nsom = "startOfMonth (getFullYear ?next) (getMonth ?next)"
  show ?case
  proof (cases "getTime ?eom < getTime today")
    case False
    then show ?thesis using "1.prems"(5) by (simp add: interestLoop_stop)
  next
    case True
    have idx: "monthIndex it + 1 \<le> monthIndex ?next" by (rule monthIndex_setMonthNext)
    have later: "getTime ?som \<le> getTime ?nsom"
      using idx by (intro start_mono) (simp add: monthIndex_def)
    have eom_lt: "getTime ?eom < getTime ?nsom"
      using idx by (intro end_before_start) (simp add: monthIndex_def)
    have old: "\<forall>d\<in>set docs. getTime (docDate d) < getTime ?nsom"
      using "1.prems"(4) later by fastforce
    have u: "interestLoop rate today it dyn docs =
             interestLoop rate today ?next (fst (monthBody rate it dyn docs))
               (snd (monthBody rate it dyn docs))"
      using True by (rule interestLoop_step)
    from monthBody_cases [of r it dyn docs] consider
      (none) "monthBody (Num r) it dyn docs = (dyn, docs)"
      | (accrue) b where "balanceBefore dyn ?som = Num b" "0 < b" "0 < r"
          "monthBody (Num r) it dyn docs =
             (sort_key (\<lambda>t. getTime (rowDate t))
                (dyn @ [docRow (interestDoc (b * (r / 100 / 12)) ?eom)]),
              docs @ [interestDoc (b * (r / 100 / 12)) ?eom])"
      by blast
    then show ?thesis
    proof cases
      case none
      then have mb: "monthBody rate it dyn docs = (dyn, docs)" using "1.prems"(1) by simp
      have "accruedCompounding basis (r / 100 / 12) 0
              (interestLoop rate today ?next (fst (monthBody rate it dyn docs))
                 (snd (monthBody rate it dyn docs)))"
      proof (rule "1.IH" [OF True "1.prems"(1) _ "1.prems"(3) _ _ "1.prems"(6)])
        show "mset (fst (monthBody rate it dyn docs)) =
              mset B + mset (map docRow (snd (monthBody rate it dyn docs)))"
          using "1.prems"(2) by (simp add: mb)
        show "\<forall>d\<in>set (snd (monthBody rate it dyn docs)). getTime (docDate d) < getTime ?nsom"
          using old by (simp add: mb)
        show "accruedCompounding basis (r / 100 / 12) 0 (snd (monthBody rate it dyn docs))"
          using "1.prems"(5) by (simp add: mb)
      qed
      then show ?thesis by (simp only: u)
    next
      case accrue
      let ?doc = "interestDoc (b * (r / 100 / 12)) ?eom"
      have mb: "monthBody rate it dyn docs =
             (sort_key (\<lambda>t. getTime (rowDate t)) (dyn @ [docRow ?doc]), docs @ [?doc])"
        using accrue(4) "1.prems"(1) by simp
      have "set dyn = set B \<union> docRow ` set docs"
        using "1.prems"(2) by (metis mset_append set_append set_map set_mset_mset)
      then have nums: "\<forall>t\<in>set dyn. rowAmount t \<noteq> NaN"
        using "1.prems"(3) by (auto simp add: docRow_def)
      have "Num b = Num (sum_list (map rowValue
                (filter (\<lambda>t. getTime (rowDate t) < getTime ?som) dyn)))"
        using balanceBefore_sum [OF nums, of ?som] accrue(1) by simp
      then have "b = sum_list (map rowValue
                (filter (\<lambda>t. getTime (rowDate t) < getTime ?som) dyn))"
        by simp
      also have "\<dots> = sum_list (map rowValue
                (filter (\<lambda>t. getTime (rowDate t) < getTime ?som) B))
            + sum_list (map rowValue
                (filter (\<lambda>t. getTime (rowDate t) < getTime ?som) (map docRow docs)))"
        using "1.prems"(2) by (rule sum_rows_split)
      also have "\<dots> = basis ?som + sum_list (map docAmount docs)"
        using "1.prems"(6) [of "getFullYear it" "getMonth it"] docRows_sum [OF "1.prems"(4)]
        by simp
      finally have b: "b = basis ?som + sum_list (map docAmount docs)" .
      have "accruedCompounding basis (r / 100 / 12) 0
              (interestLoop rate today ?next (fst (monthBody rate it dyn docs))
                 (snd (monthBody rate it dyn docs)))"
      proof (rule "1.IH" [OF True "1.prems"(1) _ "1.prems"(3) _ _ "1.prems"(6)])
        show "mset (fst (monthBody rate it dyn docs)) =
              mset B + mset (map docRow (snd (monthBody rate it dyn docs)))"
          using "1.prems"(2) by (simp add: mb)
        show "\<forall>d\<in>set (snd (monthBody rate it dyn docs)). getTime (docDate d) < getTime ?nsom"
          using old eom_lt by (simp add: mb)
        show "accruedCompounding basis (r / 100 / 12) 0 (snd (monthBody rate it dyn docs))"
          using "1.prems"(5) b
          by (simp add: mb accruedCompounding_snoc monthStartOf_def)
      qed
      then show ?thesis by (simp only: u)
    qed
  qed
qed

lemma nonInterestBasis_rows:
  "sum_list (map rowValue
     (filter (\<lambda>t. getTime (rowDate t) < c)
        (map toDynRow (filter (\<lambda>t. txKind t \<noteq> interest) txs)))) =
   sum_list (map txAmount (filter (\<lambda>t. txKind t = loanIncrease \<and> getTime (txDate t) < c) txs))
   - sum_list (map txAmount (filter (\<lambda>t. txKind t = payment \<and> getTime (txDate t) < c) txs))"
proof (induction txs)
  case Nil
  then show ?case by simp
next
  case (Cons t txs)
  then show ?case
    by (cases "txKind t") (simp_all add: toDynRow_def rowValue_def)
qed

lemmas calendar_defs =
  getTime_def endOfMonth_def startOfMonth_def daysInMonth_def isLeapYear_def setMonthNext_def
  localTime_def

lemmas reconcile_defs =
  monthBody_def balanceBefore_def reduceStep_def toDynRow_def interestDoc_def monthName_def

lemma showNat_2024: "showNat 2024 = ''2024''"
  by (simp add: showNat.simps)

text \<open>The loop for 1000 lent on 15 January 2024 at 12 percent, run on 10 March and on
  10 April 2024, and for 1000 lent on 1 January, run on 15 February.\<close>

lemma loop_until_march:
  "interestLoop (Num 12) (localTime 2024 2 10 36000000) (localTime 2024 0 15 0)
     [\<lparr>rowDate = localTime 2024 0 15 0, rowAmount = Num 1000, rowType = initial\<rparr>] []
   = [accrualFeb]"
proof -
  let ?r = "Num 12" and ?t = "localTime 2024 2 10 36000000"
  let ?i = "\<lparr>rowDate = localTime 2024 0 15 0, rowAmount = Num 1000, rowType = initial\<rparr>"
  let ?a = "\<lparr>rowDate = localTime 2024 1 29 0, rowAmount = Num 10, rowType = stored interest\<rparr>"
  have "interestLoop ?r ?t (localTime 2024 0 15 0) [?i] []
      = interestLoop ?r ?t (localTime 2024 1 15 0) [?i] []"
    by (subst interestLoop.simps) (simp add: reconcile_defs calendar_defs Let_def)
  also have "\<dots> = interestLoop ?r ?t (localTime 2024 2 15 0) [?i, ?a] [accrualFeb]"
    by (subst interestLoop.simps)
       (simp add: reconcile_defs calendar_defs Let_def accrualFeb_def showNat_2024)
  also have "\<dots> = [accrualFeb]"
    by (subst interestLoop.simps) (simp add: calendar_defs)
  finally show ?thesis .
qed

lemma loop_until_april:
  "interestLoop (Num 12) (localTime 2024 3 10 36000000) (localTime 2024 0 15 0)
     [\<lparr>rowDate = localTime 2024 0 15 0, rowAmount = Num 1000, rowType = initial\<rparr>] []
   = [accrualFeb, accrualMar]"
proof -
  let ?r = "Num 12" and ?t = "localTime 2024 3 10 36000000"
  let ?i = "\<lparr>rowDate = localTime 2024 0 15 0, rowAmount = Num 1000, rowType = initial\<rparr>"
  let ?a = "\<lparr>rowDate = localTime 2024 1 29 0, rowAmount = Num 10, rowType = stored interest\<rparr>"
  let ?b = "\<lparr>rowDate = localTime 2024 2 31 0, rowAmount = Num (101 / 10),
             rowType = stored interest\<rparr>"
  have "interestLoop ?r ?t (localTime 2024 0 15 0) [?i] []
      = interestLoop ?r ?t (localTime 2024 1 15 0) [?i] []"
    by (subst interestLoop.simps) (simp add: reconcile_defs calendar_defs Let_def)
  also have "\<dots> = interestLoop ?r ?t (localTime 2024 2 15 0) [?i, ?a] [accrualFeb]"
    by (subst interestLoop.simps)
       (simp add: reconcile_defs calendar_defs Let_def accrualFeb_def showNat_2024)
  also have "\<dots> = interestLoop ?r ?t (localTime 2024 3 15 0) [?i, ?a, ?b]
        [accrualFeb, accrualMar]"
    by (subst interestLoop.simps)
       (simp add: reconcile_defs calendar_defs Let_def accrualMar_def showNat_2024)
  also have "\<dots> = [accrualFeb, accrualMar]"
    by (subst interestLoop.simps) (simp add: calendar_defs)
  finally show ?thesis .
qed

lemma loop_from_first_of_month:
  "interestLoop (Num 12) (localTime 2024 1 15 36000000) (localTime 2024 0 1 0)
     [\<lparr>rowDate = localTime 2024 0 1 0, rowAmount = Num 1000, rowType = initial\<rparr>] []
   = []"
proof -
  let ?r = "Num 12" and ?t = "localTime 2024 1 15 36000000"
  let ?i = "\<lparr>rowDate = localTime 2024 0 1 0, rowAmount = Num 1000, rowType = initial\<rparr>"
  have "interestLoop ?r ?t (localTime 2024 0 1 0) [?i] []
      = interestLoop ?r ?t (localTime 2024 1 1 0) [?i] []"
    by (subst interestLoop.simps) (simp add: reconcile_defs calendar_defs Let_def)
  also have "\<dots> = []"
    by (subst interestLoop.simps) (simp add: calendar_defs)
  finally show ?thesis .
qed

lemma run_loanC_march:
  "runInterestCalculation False (Some loanC) (Some txs) collection (localTime 2024 2 10 36000000)
   = Committed \<lparr>batchDeletes = map txId (filter (\<lambda>t. txKind t = interest) collection),
                batchSets =
                  interestLoop (Num 12) (localTime 2024 2 10 36000000) (localTime 2024 0 15 0)
                    (sort_key (\<lambda>t. getTime (rowDate t))
                       (\<lparr>rowDate = localTime 2024 0 15 0, rowAmount = Num 1000,
                         rowType = initial\<rparr>
                        # map toDynRow (filter (\<lambda>t. txKind t \<noteq> interest) txs))) []\<rparr>"
  by (simp add: runInterestCalculation_def loanC_def mkLoan_def)




lemma monthIndex_fields:
  assumes "getMonth d < 12"
  shows "monthIndex d div 12 = getFullYear d" and "nat (monthIndex d mod 12) = getMonth d"
  using assms by (simp_all add: monthIndex_def)





subsection \<open>The interest recalculation\<close>




text \<open>
  C3. \<^verbatim>\<open>handleSaveSettings\<close> never changes the transactions collection: it calls
  \<^verbatim>\<open>runInterestCalculation()\<close> with no argument, and the guard \<^verbatim>\<open>!currentLoanData\<close>
  returns before anything is regenerated. Saving the settings of \<open>loanC\<close> on
  10 March 2024 stores them and leaves the collection empty, where a recalculation with
  these settings sets the accrual of February.
\<close>

theorem save_settings_skips_recalculation:
  "transactionDocs (handleSaveSettings userId loanId form setDocOk isCalculatingInterest
                      newId today st) = transactionDocs st
   \<and> settingsDoc (handleSaveSettings ''u1'' ''loan1'' formC True False autoId
                    (localTime 2024 2 10 36000000) newScreen) = Some loanC
   \<and> transactionDocs (handleSaveSettings ''u1'' ''loan1'' formC True False autoId
                    (localTime 2024 2 10 36000000) newScreen) = []
   \<and> runInterestCalculation False (Some loanC) (Some []) [] (localTime 2024 2 10 36000000)
       = Committed \<lparr>batchDeletes = [], batchSets = [accrualFeb]\<rparr>"
proof (intro conjI)
  have skip: "runInterestCalculation c None None docs t = Skipped" for c docs t
    by (simp add: runInterestCalculation_def)
  show "transactionDocs (handleSaveSettings userId loanId form setDocOk isCalculatingInterest
                      newId today st) = transactionDocs st"
    by (simp add: handleSaveSettings_def skip Let_def split: jsNumber.splits option.splits)
  show "settingsDoc (handleSaveSettings ''u1'' ''loan1'' formC True False autoId
                    (localTime 2024 2 10 36000000) newScreen) = Some loanC"
    by (simp add: handleSaveSettings_def skip Let_def formC_def newScreen_def loanC_def mkLoan_def)
  show "transactionDocs (handleSaveSettings ''u1'' ''loan1'' formC True False autoId
                    (localTime 2024 2 10 36000000) newScreen) = []"
    by (simp add: handleSaveSettings_def skip Let_def formC_def newScreen_def)
  show "runInterestCalculation False (Some loanC) (Some []) [] (localTime 2024 2 10 36000000)
       = Committed \<lparr>batchDeletes = [], batchSets = [accrualFeb]\<rparr>"
    by (simp add: run_loanC_march loop_until_march)
qed

text \<open>
  C4 (amended). For a loan with a numeric initial amount and rate, every accrual that a
  recalculation sets is the monthly rate times the balance before the first day of its
  month, and that balance is the initial amount and the non-interest transactions dated
  strictly before that day (\<open>nonInterestBasis\<close>) plus the accruals generated for the
  earlier months in the same pass: interest compounds. The interest transactions stored
  before the pass do not contribute.
\<close>

theorem accruals_compound:
  assumes "initialLoanAmount s = Some (Num a)" and "initialLoanDate s = Some d0"
    and "interestRate s = Some (Num r)"
  shows "(\<exists>b. runInterestCalculation False (Some s) (Some txs) collection today = Committed b)
         \<and> accruedCompounding (nonInterestBasis a d0 txs) (r / 100 / 12) 0
             (setsOf (runInterestCalculation False (Some s) (Some txs) collection today))"
proof -
  let ?k = "\<lambda>t::dynRow. getTime (rowDate t)"
  let ?B = "\<lparr>rowDate = d0, rowAmount = Num a, rowType = initial\<rparr>
            # map toDynRow (filter (\<lambda>t. txKind t \<noteq> interest) txs)"
  have run: "runInterestCalculation False (Some s) (Some txs) collection today =
        Committed \<lparr>batchDeletes = map txId (filter (\<lambda>t. txKind t = interest) collection),
                   batchSets = interestLoop (Num r) today d0 (sort_key ?k ?B) []\<rparr>"
    using assms by (simp add: runInterestCalculation_def)
  have "accruedCompounding (nonInterestBasis a d0 txs) (r / 100 / 12) 0
          (interestLoop (Num r) today d0 (sort_key ?k ?B) [])"
  proof (rule interestLoop_compounding [where B = ?B])
    show "Num r = Num r" ..
    show "mset (sort_key ?k ?B) = mset ?B + mset (map docRow [])" by simp
    show "\<forall>t\<in>set ?B. rowAmount t \<noteq> NaN" by (auto simp add: toDynRow_def)
    show "\<forall>d\<in>set []. getTime (docDate d)
            < getTime (startOfMonth (getFullYear d0) (getMonth d0))" by simp
    show "accruedCompounding (nonInterestBasis a d0 txs) (r / 100 / 12) 0 []" by simp
    show "nonInterestBasis a d0 txs (startOfMonth y m) =
            sum_list (map rowValue
              (filter (\<lambda>t. getTime (rowDate t) < getTime (startOfMonth y m)) ?B))" for y m
      by (simp add: nonInterestBasis_def nonInterestBasis_rows rowValue_def)
  qed
  with run show ?thesis by (simp add: setsOf_def)
qed

text \<open>C4 (amended) for 1000 lent on 15 January 2024 at 12 percent, recalculated on
  10 April 2024.\<close>

theorem accruals_compound_witness:
  "initialLoanAmount loanC = Some (Num 1000)
   \<and> initialLoanDate loanC = Some (localTime 2024 0 15 0)
   \<and> interestRate loanC = Some (Num 12)
   \<and> accruedCompounding (nonInterestBasis 1000 (localTime 2024 0 15 0) []) (12 / 100 / 12) 0
       (setsOf (runInterestCalculation False (Some loanC) (Some []) []
                  (localTime 2024 3 10 36000000)))"
  using accruals_compound [of loanC 1000 "localTime 2024 0 15 0" 12 "[]" "[]"
      "localTime 2024 3 10 36000000"]
  by (simp add: loanC_def mkLoan_def)

text \<open>C4 as it is written fails on the code: in that recalculation the accrual of March
  is 10.10, one percent of 1000 plus the accrual of February, where the non-interest
  balance before 1 March gives 10.\<close>

theorem accruals_on_non_interest_only_counterexample:
  "setsOf (runInterestCalculation False (Some loanC) (Some []) []
             (localTime 2024 3 10 36000000)) = [accrualFeb, accrualMar]
   \<and> docAmount accrualMar = 101 / 10
   \<and> nonInterestBasis 1000 (localTime 2024 0 15 0) [] (monthStartOf accrualMar) * (12 / 100 / 12)
       = 10
   \<and> \<not> accruedOnBasisOnly (nonInterestBasis 1000 (localTime 2024 0 15 0) []) (12 / 100 / 12)
         (setsOf (runInterestCalculation False (Some loanC) (Some []) []
                    (localTime 2024 3 10 36000000)))"
proof -
  have r: "setsOf (runInterestCalculation False (Some loanC) (Some []) []
             (localTime 2024 3 10 36000000)) = [accrualFeb, accrualMar]"
    by (simp add: runInterestCalculation_def loanC_def mkLoan_def setsOf_def loop_until_april)
  have b: "nonInterestBasis 1000 (localTime 2024 0 15 0) [] (monthStartOf accrualMar)
            * (12 / 100 / 12) = 10"
    by (simp add: nonInterestBasis_def monthStartOf_def accrualMar_def calendar_defs)
  show ?thesis
    unfolding r using b by (simp add: accrualMar_def)
qed

text \<open>
  C5 (amended). For a loan of 1000 at 12 percent whose initial date is a day from 1 to 28
  of a month M, with no non-interest transactions, a recalculation run in month M+2
  before the last day of that month sets exactly one interest transaction, of amount 10,
  dated on the last calendar day of month M+1. The month M itself accrues nothing: the
  balance before its first day does not hold the initial amount.
\<close>

theorem one_month_after_loan_month:
  assumes "initialLoanAmount s = Some (Num 1000)" and "interestRate s = Some (Num 12)"
    and "initialLoanDate s = Some d0"
    and "1 \<le> getDate d0" and "getDate d0 \<le> 28" and "msOfDay d0 < 86400000"
    and "filter (\<lambda>t. txKind t \<noteq> interest) txs = []"
    and "monthIndex today = monthIndex d0 + 2" and "getMonth today < 12"
    and "getDate today < daysInMonth (getFullYear today) (getMonth today)"
    and "msOfDay today < 86400000"
  shows "runInterestCalculation False (Some s) (Some txs) collection today =
           Committed
             \<lparr>batchDeletes = map txId (filter (\<lambda>t. txKind t = interest) collection),
              batchSets =
                [interestDoc 10
                   (endOfMonth ((monthIndex d0 + 1) div 12)
                      (nat ((monthIndex d0 + 1) mod 12)))]\<rparr>"
proof -
  let ?c = "86400000 :: int"
  let ?i = "\<lparr>rowDate = d0, rowAmount = Num 1000, rowType = initial\<rparr>"
  let ?r = "Num 12"
  define y1 m1 where "y1 = (monthIndex d0 + 1) div 12" and "m1 = nat ((monthIndex d0 + 1) mod 12)"
  define it1 where "it1 = \<lparr>getFullYear = y1, getMonth = m1, getDate = getDate d0,
                            msOfDay = msOfDay d0\<rparr>"
  define it2 where "it2 = \<lparr>getFullYear = getFullYear today, getMonth = getMonth today,
                            getDate = getDate d0, msOfDay = msOfDay d0\<rparr>"
  let ?doc = "interestDoc 10 (endOfMonth y1 m1)"
  have i1: "y1 * 12 + int m1 = monthIndex d0 + 1" by (simp add: y1_def m1_def)
  have mi1: "monthIndex it1 = monthIndex d0 + 1" by (simp add: monthIndex_def it1_def i1)
  have n1: "setMonthNext d0 = it1"
    using assms(5) by (simp add: setMonthNext_short it1_def y1_def m1_def)
  have n2: "setMonthNext it1 = it2"
  proof -
    have m: "monthIndex it1 + 1 = monthIndex today" using mi1 assms(8) by simp
    have "setMonthNext it1 =
            \<lparr>getFullYear = (monthIndex it1 + 1) div 12,
             getMonth = nat ((monthIndex it1 + 1) mod 12),
             getDate = getDate it1, msOfDay = msOfDay it1\<rparr>"
      by (rule setMonthNext_short) (simp add: it1_def assms(5))
    also have "\<dots> = it2"
      unfolding m monthIndex_fields [OF assms(9)] by (simp add: it2_def it1_def)
    finally show ?thesis .
  qed
  have td: "getTime today = ((monthIndex d0 + 2) * 32 + int (getDate today)) * ?c
              + int (msOfDay today)"
    by (simp add: getTime_monthIndex assms(8))
  have d0t: "getTime d0 = (monthIndex d0 * 32 + int (getDate d0)) * ?c + int (msOfDay d0)"
    by (rule getTime_monthIndex)
  have e0: "getTime (endOfMonth (getFullYear d0) (getMonth d0))
              = (monthIndex d0 * 32 + int (daysInMonth (getFullYear d0) (getMonth d0))) * ?c"
    by (simp add: getTime_endOfMonth monthIndex_def)
  have e1: "getTime (endOfMonth y1 m1)
              = ((monthIndex d0 + 1) * 32 + int (daysInMonth y1 m1)) * ?c"
    by (simp add: getTime_endOfMonth i1)
  have e2: "getTime (endOfMonth (getFullYear today) (getMonth today))
              = ((monthIndex d0 + 2) * 32
                 + int (daysInMonth (getFullYear today) (getMonth today))) * ?c"
    using assms(8) by (simp add: getTime_endOfMonth monthIndex_def)
  have s0: "getTime (startOfMonth (getFullYear d0) (getMonth d0)) = (monthIndex d0 * 32 + 1) * ?c"
    by (simp add: getTime_startOfMonth monthIndex_def)
  have s1: "getTime (startOfMonth y1 m1) = ((monthIndex d0 + 1) * 32 + 1) * ?c"
    by (simp add: getTime_startOfMonth i1)
  have g0: "getTime (endOfMonth (getFullYear d0) (getMonth d0)) < getTime today"
    using daysInMonth_bounds [of "getFullYear d0" "getMonth d0"] unfolding e0 td by simp
  have g1: "getTime (endOfMonth (getFullYear it1) (getMonth it1)) < getTime today"
    using daysInMonth_bounds [of y1 m1] e1 td by (simp add: it1_def)
  have g2: "\<not> getTime (endOfMonth (getFullYear it2) (getMonth it2)) < getTime today"
  proof -
    have "int (getDate today) + 1 \<le> int (daysInMonth (getFullYear today) (getMonth today))"
      using assms(10) by simp
    then have "(int (getDate today) + 1) * ?c
                 \<le> int (daysInMonth (getFullYear today) (getMonth today)) * ?c"
      by (rule mult_right_mono) simp
    with assms(11) show ?thesis
      unfolding it2_def using e2 td by (simp add: algebra_simps)
  qed
  have before0: "\<not> getTime d0 < getTime (startOfMonth (getFullYear d0) (getMonth d0))"
  proof -
    have "1 * ?c \<le> int (getDate d0) * ?c" using assms(4) by (intro mult_right_mono) simp_all
    then show ?thesis unfolding s0 d0t by (simp add: algebra_simps)
  qed
  have before1: "getTime d0 < getTime (startOfMonth y1 m1)"
  proof -
    have "int (getDate d0) * ?c \<le> 28 * ?c" using assms(5) by (intro mult_right_mono) simp_all
    with assms(6) show ?thesis unfolding s1 d0t by (simp add: algebra_simps)
  qed
  have b0: "monthBody ?r d0 [?i] [] = ([?i], [])"
    using before0 by (simp add: monthBody_def balanceBefore_def Let_def)
  have b1: "monthBody ?r it1 [?i] [] =
              (sort_key (\<lambda>t. getTime (rowDate t)) ([?i] @ [docRow ?doc]), [?doc])"
    using before1
    by (simp add: monthBody_def balanceBefore_def reduceStep_def Let_def it1_def docRow_def)
  have "interestLoop ?r today d0 [?i] [] = interestLoop ?r today it1 [?i] []"
    by (simp only: interestLoop_step [OF g0] b0 n1 fst_conv snd_conv)
  also have "\<dots> = interestLoop ?r today it2
                      (sort_key (\<lambda>t. getTime (rowDate t)) ([?i] @ [docRow ?doc])) [?doc]"
    by (simp only: interestLoop_step [OF g1] b1 n2 fst_conv snd_conv)
  also have "\<dots> = [?doc]" by (rule interestLoop_stop [OF g2])
  finally have loop: "interestLoop ?r today d0 [?i] [] = [?doc]" .
  show ?thesis
    using assms(1-3,7) loop
    by (simp add: runInterestCalculation_def y1_def m1_def)
qed

text \<open>C5 (amended) for the loan of 15 January 2024, recalculated on 10 March 2024: the
  accrual is dated 29 February.\<close>

theorem one_month_after_loan_month_witness:
  "initialLoanAmount loanC = Some (Num 1000) \<and> interestRate loanC = Some (Num 12)
   \<and> initialLoanDate loanC = Some (localTime 2024 0 15 0)
   \<and> 1 \<le> getDate (localTime 2024 0 15 0) \<and> getDate (localTime 2024 0 15 0) \<le> 28
   \<and> msOfDay (localTime 2024 0 15 0) < 86400000
   \<and> filter (\<lambda>t. txKind t \<noteq> interest) [] = []
   \<and> monthIndex (localTime 2024 2 10 36000000) = monthIndex (localTime 2024 0 15 0) + 2
   \<and> getMonth (localTime 2024 2 10 36000000) < 12
   \<and> getDate (localTime 2024 2 10 36000000) < daysInMonth 2024 2
   \<and> msOfDay (localTime 2024 2 10 36000000) < 86400000
   \<and> runInterestCalculation False (Some loanC) (Some []) [] (localTime 2024 2 10 36000000)
       = Committed \<lparr>batchDeletes = [], batchSets = [interestDoc 10 (endOfMonth 2024 1)]\<rparr>
   \<and> interestDoc 10 (endOfMonth 2024 1) = accrualFeb"
  using one_month_after_loan_month [of loanC "localTime 2024 0 15 0" "[]"
      "localTime 2024 2 10 36000000" "[]"]
  by (simp add: loanC_def mkLoan_def localTime_def monthIndex_def daysInMonth_def
      interestDoc_def endOfMonth_def isLeapYear_def monthName_def showNat_2024 accrualFeb_def)

text \<open>C5 as it is written fails on the code: for 1000 lent on 1 January 2024 at
  12 percent, on 15 February the month of January has fully elapsed and the
  recalculation sets nothing.\<close>

theorem first_of_month_loan_counterexample:
  "initialLoanAmount loanCFirst = Some (Num 1000) \<and> interestRate loanCFirst = Some (Num 12)
   \<and> initialLoanDate loanCFirst = Some (localTime 2024 0 1 0)
   \<and> runInterestCalculation False (Some loanCFirst) (Some []) []
        (localTime 2024 1 15 36000000)
       = Committed \<lparr>batchDeletes = [], batchSets = []\<rparr>"
proof -
  have "runInterestCalculation False (Some loanCFirst) (Some []) []
          (localTime 2024 1 15 36000000)
        = Committed \<lparr>batchDeletes = [],
            batchSets =
              interestLoop (Num 12) (localTime 2024 1 15 36000000) (localTime 2024 0 1 0)
                [\<lparr>rowDate = localTime 2024 0 1 0, rowAmount = Num 1000,
                   rowType = initial\<rparr>] []\<rparr>"
    by (simp add: runInterestCalculation_def loanCFirst_def mkLoan_def)
  then have "runInterestCalculation False (Some loanCFirst) (Some []) []
          (localTime 2024 1 15 36000000)
        = Committed \<lparr>batchDeletes = [], batchSets = []\<rparr>"
    by (simp only: loop_from_first_of_month)
  then show ?thesis by (simp add: loanCFirst_def mkLoan_def)
qed

end
